theory Spec2Isabelle
  imports Complex_Main "HOL-Library.Word" "HOL-Library.AList"
begin

section \<open>The installer wizard of wyoming-satellite (script/_installer.py)\<close>

text \<open>
  Python strings are modelled as \<open>string\<close>. The two enumerations of the source mix in
  \<open>str\<close> (\<open>class WakeWordSystem(str, Enum)\<close>, \<open>class SatelliteType(str, Enum)\<close>): a
  member is a string, and Python compares, hashes and serialises it as its value. The
  members are therefore modelled as the strings they are.
\<close>

subsection \<open>Microphone autodetection: choosing among the probe results\<close>

definition RECORD_RMS_MIN :: real where
  "RECORD_RMS_MIN = 30"

text \<open>
  The loop over \<open>futures.items()\<close> in the \<open>detect\<close> branch of \<open>configure_microphone\<close>.
  \<open>best\<close> holds \<open>best_device\<close> and \<open>best_rms\<close>, which the source sets together; the
  threshold \<open>_RECORD_RMS_MIN\<close> is a parameter here.
\<close>

fun detect_loop :: "real \<Rightarrow> (string \<times> real) list \<Rightarrow> (string \<times> real) option \<Rightarrow> (string \<times> real) option" where
  "detect_loop thr [] best = best"
| "detect_loop thr ((device, device_rms) # rest) best =
     (if device_rms < thr then detect_loop thr rest best
      else (case best of
              None \<Rightarrow> detect_loop thr rest (Some (device, device_rms))
            | Some (best_device, best_rms) \<Rightarrow>
                if device_rms > best_rms then detect_loop thr rest (Some (device, device_rms))
                else detect_loop thr rest best))"

text \<open>
  \<open>futures[device] = executor.submit(_record_proc, device)\<close> for each device: a Python
  dictionary keeps the position of a key that is assigned again, as \<open>AList.update\<close> does.
\<close>

definition futures :: "(string \<Rightarrow> real) \<Rightarrow> string list \<Rightarrow> (string \<times> real) list" where
  "futures record_of devices = fold (\<lambda>device fs. AList.update device (record_of device) fs) devices []"

definition autodetect :: "(string \<Rightarrow> real) \<Rightarrow> string list \<Rightarrow> string option" where
  "autodetect record_of devices =
     map_option fst (detect_loop RECORD_RMS_MIN (futures record_of devices) None)"

subsection \<open>Exceptions and external processes\<close>

text \<open>The Python exceptions that the modelled functions raise or catch.\<close>

datatype exn = AssertionError | ValueError | ZeroDivisionError | OSError | CalledProcessError
  | AttributeError

text \<open>
  What \<open>subprocess\<close> reports of one external process: \<open>Popen\<close> raises (the program is
  missing, or cannot be executed), or the process runs and exits with a return code and
  the output that was captured. Captured text is taken to be decodable.
\<close>

datatype 'a proc = SpawnError | Exited int 'a

text \<open>\<open>subprocess.check_output\<close>: an exception unless the process ran and returned 0.\<close>

fun check_output :: "'a proc \<Rightarrow> exn + 'a" where
  "check_output SpawnError = Inl OSError"
| "check_output (Exited returncode out) =
     (if returncode \<noteq> 0 then Inl CalledProcessError else Inr out)"

text \<open>
  What the program does to the outside, in the order it does it: the dialogs it shows (with
  the argument vector of the prompting tool), the commands it hands to the executor, the
  processes it spawns, what it writes to their input before closing it, the values it
  prints to the progress gauge, and the directories it removes.
\<close>

datatype event =
    Dialog "string list"
  | Submit "string list"
  | Popen "string list"
  | Communicate "string list" "string option"
  | Gauge nat
  | GaugeClose
  | Rmtree string
  | Mkdir string
  | CheckOutput "string list"

subsection \<open>Strings\<close>

text \<open>\<open>str(i)\<close> for a non-negative integer: its decimal digits.\<close>

definition digit_char :: "nat \<Rightarrow> char" where
  "digit_char d = char_of (48 + d)"

function str_nat :: "nat \<Rightarrow> string" where
  "str_nat n = (if n < 10 then [digit_char n] else str_nat (n div 10) @ [digit_char (n mod 10)])"
  by pat_completeness auto
termination
  by (relation "measure id") auto

declare str_nat.simps [simp del]

text \<open>
  \<open>shlex.split(s)\<close>: the tokenizer of the standard library in POSIX mode with
  \<open>whitespace_split\<close> set and no comment characters, as \<open>shlex.split\<close> configures it.
  The tokenizer's \<open>state\<close> is one of \<open>' '\<close> (between tokens), \<open>'a'\<close> (in a word), a quote
  character, or the escape character together with \<open>escapedstate\<close>.
\<close>

definition whitespace :: "char set" where
  "whitespace = {CHR '' '', CHR 0x09, CHR 0x0D, CHR 0x0A}"

definition quotes :: "char set" where
  "quotes = {CHR 0x27, CHR 0x22}"

definition escape :: char where
  "escape = CHR 0x5C"

definition escapedquotes :: "char set" where
  "escapedquotes = {CHR 0x22}"

datatype lex_state = Between | InWord | InQuote char | Escaped lex_state

fun read_tokens :: "lex_state \<Rightarrow> string \<Rightarrow> bool \<Rightarrow> string list \<Rightarrow> string \<Rightarrow> exn + string list" where
  "read_tokens Between token quoted acc [] =
     Inr (if token \<noteq> [] \<or> quoted then acc @ [token] else acc)"
| "read_tokens Between token quoted acc (c # cs) =
     (if c \<in> whitespace then
        (if token \<noteq> [] \<or> quoted then read_tokens Between [] False (acc @ [token]) cs
         else read_tokens Between token quoted acc cs)
      else if c = escape then read_tokens (Escaped InWord) token quoted acc cs
      else if c \<in> quotes then read_tokens (InQuote c) token quoted acc cs
      else read_tokens InWord [c] quoted acc cs)"
| "read_tokens (InQuote q) token quoted acc [] = Inl ValueError"
| "read_tokens (InQuote q) token quoted acc (c # cs) =
     (if c = q then read_tokens InWord token True acc cs
      else if c = escape \<and> q \<in> escapedquotes then read_tokens (Escaped (InQuote q)) token True acc cs
      else read_tokens (InQuote q) (token @ [c]) True acc cs)"
| "read_tokens (Escaped escapedstate) token quoted acc [] = Inl ValueError"
| "read_tokens (Escaped escapedstate) token quoted acc (c # cs) =
     (let token' = (case escapedstate of
                      InQuote q \<Rightarrow> if c \<noteq> escape \<and> c \<noteq> q then token @ [escape] else token
                    | _ \<Rightarrow> token)
      in read_tokens escapedstate (token' @ [c]) quoted acc cs)"
| "read_tokens InWord token quoted acc [] =
     Inr (if token \<noteq> [] \<or> quoted then acc @ [token] else acc)"
| "read_tokens InWord token quoted acc (c # cs) =
     (if c \<in> whitespace then
        (if token \<noteq> [] \<or> quoted then read_tokens Between [] False (acc @ [token]) cs
         else read_tokens Between token quoted acc cs)
      else if c \<in> quotes then read_tokens (InQuote c) token quoted acc cs
      else if c = escape then read_tokens (Escaped InWord) token quoted acc cs
      else read_tokens InWord (token @ [c]) quoted acc cs)"

definition shlex_split :: "string \<Rightarrow> exn + string list" where
  "shlex_split s = read_tokens Between [] False [] s"

subsection \<open>The prompting tool\<close>

definition TITLE :: string where
  "TITLE = ''Wyoming Satellite''"

definition WIDTH :: string where
  "WIDTH = ''75''"

definition HEIGHT :: string where
  "HEIGHT = ''20''"

definition LIST_HEIGHT :: string where
  "LIST_HEIGHT = ''12''"

text \<open>
  The prompting tool as the program sees it: for an argument vector, the return code and
  what the tool wrote to its diagnostic channel. That it can be started is assumed.
\<close>

type_synonym tool = "string list \<Rightarrow> int \<times> string"

definition whiptail :: "tool \<Rightarrow> string list \<Rightarrow> event list \<Rightarrow> string option \<times> event list" where
  "whiptail tool args tr =
     (let argv = [''whiptail'', ''--title'', TITLE] @ args;
          (returncode, stderr) = tool argv
      in (if returncode \<noteq> 0 then None else Some stderr, tr @ [Dialog argv]))"

text \<open>\<open>ItemType = Union[str, Tuple[str, str]]\<close>: a bare label, or a value with its label.\<close>

datatype item = Str string | Tup string string

text \<open>
  The loop \<open>for i, item in enumerate(items)\<close> of \<open>menu\<close>, which fills \<open>item_map\<close> and
  \<open>item_args\<close>.
\<close>

fun menu_items :: "nat \<Rightarrow> item list \<Rightarrow> (string \<rightharpoonup> string) \<times> string list
    \<Rightarrow> (string \<rightharpoonup> string) \<times> string list" where
  "menu_items i [] (item_map, item_args) = (item_map, item_args)"
| "menu_items i (Str s # items) (item_map, item_args) =
     menu_items (Suc i) items (item_map(str_nat i \<mapsto> s), item_args @ [str_nat i, s])"
| "menu_items i (Tup v l # items) (item_map, item_args) =
     menu_items (Suc i) items (item_map(str_nat i \<mapsto> v), item_args @ [str_nat i, l])"

definition menu :: "tool \<Rightarrow> string \<Rightarrow> item list \<Rightarrow> string list \<Rightarrow> event list
    \<Rightarrow> exn + string option \<times> event list" where
  "menu tool text items args tr =
     (if items = [] then Inl AssertionError
      else let (item_map, item_args) = menu_items 0 items (Map.empty, []);
               (result, tr') = whiptail tool
                  ([''--notags''] @ args @ [''--menu'', text, HEIGHT, WIDTH, LIST_HEIGHT] @ item_args) tr
           in Inr (case result of None \<Rightarrow> None | Some r \<Rightarrow> item_map r, tr'))"

definition inputbox :: "tool \<Rightarrow> string \<Rightarrow> string option \<Rightarrow> event list \<Rightarrow> string option \<times> event list" where
  "inputbox tool text init tr =
     whiptail tool [''--inputbox'', text, HEIGHT, WIDTH,
                    (case init of None \<Rightarrow> [] | Some s \<Rightarrow> s)] tr"

definition paswordbox :: "tool \<Rightarrow> string \<Rightarrow> event list \<Rightarrow> string option \<times> event list" where
  "paswordbox tool text tr = whiptail tool [''--passwordbox'', text, HEIGHT, WIDTH] tr"

text \<open>The loop of \<open>radiolist\<close>: as in \<open>menu\<close>, with a flag for the selected item.\<close>

fun radiolist_items :: "string option \<Rightarrow> nat \<Rightarrow> item list \<Rightarrow> (string \<rightharpoonup> string) \<times> string list
    \<Rightarrow> (string \<rightharpoonup> string) \<times> string list" where
  "radiolist_items selected_item i [] (item_map, item_args) = (item_map, item_args)"
| "radiolist_items selected_item i (Str s # items) (item_map, item_args) =
     radiolist_items selected_item (Suc i) items
       (item_map(str_nat i \<mapsto> s),
        item_args @ [str_nat i, s, if Some s = selected_item then ''1'' else ''0''])"
| "radiolist_items selected_item i (Tup v l # items) (item_map, item_args) =
     radiolist_items selected_item (Suc i) items
       (item_map(str_nat i \<mapsto> v),
        item_args @ [str_nat i, l, if Some v = selected_item then ''1'' else ''0''])"

definition radiolist :: "tool \<Rightarrow> string \<Rightarrow> item list \<Rightarrow> string option \<Rightarrow> string list \<Rightarrow> event list
    \<Rightarrow> exn + string option \<times> event list" where
  "radiolist tool text items selected_item args tr =
     (if items = [] then Inl AssertionError
      else let (item_map, item_args) = radiolist_items selected_item 0 items (Map.empty, []);
               (result, tr') = whiptail tool
                  ([''--notags''] @ args @ [''--radiolist'', text, HEIGHT, WIDTH, LIST_HEIGHT] @ item_args) tr
           in Inr (case result of
                     None \<Rightarrow> None
                   | Some r \<Rightarrow> (case item_map r of None \<Rightarrow> Some r | Some v \<Rightarrow> Some v), tr'))"

text \<open>The loop of \<open>checklist\<close>: the flag tells whether the item is among the selected ones.\<close>

fun checklist_items :: "string list \<Rightarrow> nat \<Rightarrow> item list \<Rightarrow> (string \<rightharpoonup> string) \<times> string list
    \<Rightarrow> (string \<rightharpoonup> string) \<times> string list" where
  "checklist_items selected_items i [] (item_map, item_args) = (item_map, item_args)"
| "checklist_items selected_items i (Str s # items) (item_map, item_args) =
     checklist_items selected_items (Suc i) items
       (item_map(str_nat i \<mapsto> s),
        item_args @ [str_nat i, s, if s \<in> set selected_items then ''1'' else ''0''])"
| "checklist_items selected_items i (Tup v l # items) (item_map, item_args) =
     checklist_items selected_items (Suc i) items
       (item_map(str_nat i \<mapsto> v),
        item_args @ [str_nat i, l, if v \<in> set selected_items then ''1'' else ''0''])"

text \<open>
  \<open>checklist\<close>: \<open>None\<close> when the tool was cancelled, otherwise the tokens of its output,
  each mapped through \<open>item_map\<close> (a token that is no key stays as it is). An output that
  \<open>shlex.split\<close> rejects raises.
\<close>

definition checklist :: "tool \<Rightarrow> string \<Rightarrow> item list \<Rightarrow> string list \<Rightarrow> string list \<Rightarrow> event list
    \<Rightarrow> exn + string list option \<times> event list" where
  "checklist tool text items selected_items args tr =
     (if items = [] then Inl AssertionError
      else let (item_map, item_args) = checklist_items selected_items 0 items (Map.empty, []);
               (result, tr') = whiptail tool
                  ([''--notags''] @ args @ [''--checklist'', text, HEIGHT, WIDTH, LIST_HEIGHT] @ item_args) tr
           in (case result of
                 None \<Rightarrow> Inr (None, tr')
               | Some r \<Rightarrow>
                   (case shlex_split r of
                      Inl e \<Rightarrow> Inl e
                    | Inr result_items \<Rightarrow>
                        Inr (Some (map (\<lambda>result_item.
                                     case item_map result_item of None \<Rightarrow> result_item | Some v \<Rightarrow> v)
                                   result_items), tr'))))"

definition yesno :: "tool \<Rightarrow> string \<Rightarrow> event list \<Rightarrow> bool \<times> event list" where
  "yesno tool text tr =
     (let (result, tr') = whiptail tool [''--yesno'', text, HEIGHT, WIDTH] tr in (result \<noteq> None, tr'))"

definition msgbox :: "tool \<Rightarrow> string \<Rightarrow> event list \<Rightarrow> event list" where
  "msgbox tool text tr = snd (whiptail tool [''--msgbox'', text, HEIGHT, WIDTH] tr)"

subsection \<open>The command runner\<close>

text \<open>
  \<open>_run_command\<close>: the result, and what it did to the outside. An empty command fails the
  \<open>assert\<close>; the assertion error, like an error of \<open>Popen\<close>, is caught and gives \<open>False\<close>.
\<close>

definition run_command :: "string proc \<Rightarrow> string list \<Rightarrow> string option \<Rightarrow> bool \<times> event list" where
  "run_command p command sudo_password =
     (if command = [] then (False, [])
      else let proc_input = (if hd command = ''sudo'' \<and> sudo_password \<noteq> None
                             then sudo_password else None)
           in (case p of
                 SpawnError \<Rightarrow> (False, [Popen command])
               | Exited returncode stderr \<Rightarrow>
                   (returncode = 0, [Popen command, Communicate command proc_input])))"

text \<open>
  One unit of work of the executor: \<open>done_at k\<close> is what \<open>future.done()\<close> answers when it is
  asked for the \<open>k\<close>-th time, and \<open>process\<close> is what the command's process does. A command
  that never ends has a \<open>done_at\<close> that is never true.
\<close>

record job =
  done_at :: "nat \<Rightarrow> bool"
  process :: "string proc"

text \<open>
  The loop \<open>while not future.done()\<close> of \<open>run_with_gauge\<close>, with \<open>seconds = 5\<close> and
  \<open>parts = 20\<close>. It does not return (\<open>None\<close>) when the future is never done.
\<close>

partial_function (option) await :: "(nat \<Rightarrow> bool) \<Rightarrow> nat \<Rightarrow> nat \<Rightarrow> event list \<Rightarrow> (nat \<times> event list) option" where
  "await is_done k percent tr =
     (if is_done k then Some (percent, tr)
      else let percent1 = percent + 100 div 20;
               percent2 = (if percent1 > 100 then 0 else percent1)
           in await is_done (Suc k) percent2 (tr @ [Gauge percent2]))"

text \<open>
  The loop \<open>for command in commands\<close>. \<open>jobs n\<close> is the unit of work that the \<open>n\<close>-th
  submission starts. The worker and the gauge run at the same time; the trace lists the
  worker's events first.
\<close>

fun run_commands :: "(nat \<Rightarrow> job) \<Rightarrow> nat \<Rightarrow> string list list \<Rightarrow> string option \<Rightarrow> nat \<Rightarrow> event list
    \<Rightarrow> (bool \<times> event list) option" where
  "run_commands jobs n [] sudo_password percent tr = Some (True, tr)"
| "run_commands jobs n (command # commands) sudo_password percent tr =
     (let (result, events) = run_command (process (jobs n)) command sudo_password
      in (case await (done_at (jobs n)) 0 percent (tr @ Submit command # events) of
            None \<Rightarrow> None
          | Some (percent', tr') \<Rightarrow>
              if \<not> result then Some (False, tr')
              else run_commands jobs (Suc n) commands sudo_password percent' tr'))"

definition run_with_gauge :: "(nat \<Rightarrow> job) \<Rightarrow> string \<Rightarrow> string list list \<Rightarrow> string option \<Rightarrow> event list
    \<Rightarrow> (bool \<times> event list) option" where
  "run_with_gauge jobs text commands sudo_password tr =
     (case run_commands jobs 0 commands sudo_password 0
             (tr @ [Dialog [''whiptail'', ''--title'', TITLE, ''--gauge'', text, HEIGHT, WIDTH, ''0'']]) of
        None \<Rightarrow> None
      | Some (result, tr') \<Rightarrow> if result then Some (True, tr' @ [GaugeClose]) else Some (False, tr'))"

subsection \<open>Scoring one microphone\<close>

text \<open>
  \<open>array.array("h", audio)\<close>: the bytes, two by two, as signed 16-bit values (low byte
  first, as on the machines the program runs on); an odd number of bytes is a \<open>ValueError\<close>.
\<close>

fun array_h :: "8 word list \<Rightarrow> exn + 16 word list" where
  "array_h [] = Inr []"
| "array_h [b] = Inl ValueError"
| "array_h (lo # hi # bytes) =
     (case array_h bytes of
        Inl e \<Rightarrow> Inl e
      | Inr samples \<Rightarrow> Inr (word_of_nat (unat lo + 256 * unat hi) # samples))"

text \<open>The command of the capture; \<open>str(_RECORD_SECONDS)\<close> is \<open>8\<close>.\<close>

definition arecord_command :: "string \<Rightarrow> string list" where
  "arecord_command device =
     [''arecord'', ''-q'', ''-D'', device, ''-r'', ''16000'', ''-c'', ''1'',
      ''-f'', ''S16_LE'', ''-t'', ''raw'', ''-d'', ''8'']"

text \<open>
  The body of the \<open>try\<close> in \<open>_record_proc\<close>; \<open>arecord\<close> tells what the capture process does
  for a command. Python's floats are modelled as reals.
\<close>

definition record_try :: "(string list \<Rightarrow> 8 word list proc) \<Rightarrow> string \<Rightarrow> exn + real" where
  "record_try arecord device =
     (case check_output (arecord (arecord_command device)) of
        Inl e \<Rightarrow> Inl e
      | Inr audio \<Rightarrow>
          (case array_h audio of
             Inl e \<Rightarrow> Inl e
           | Inr audio_array \<Rightarrow>
               if length audio_array = 0 then Inl ZeroDivisionError
               else Inr (sqrt (1 / real (length audio_array)
                               * real_of_int (sum_list (map (\<lambda>x. sint x * sint x) audio_array))))))"

definition record_proc :: "(string list \<Rightarrow> 8 word list proc) \<Rightarrow> string \<Rightarrow> real" where
  "record_proc arecord device =
     (case record_try arecord device of Inl e \<Rightarrow> 0 | Inr rms \<Rightarrow> rms)"

subsection \<open>Settings and their file\<close>

definition ALWAYS_STREAMING :: string where
  "ALWAYS_STREAMING = ''always''"

definition VAD :: string where
  "VAD = ''vad''"

definition WAKE :: string where
  "WAKE = ''wake''"

definition OPENWAKEWORD :: string where
  "OPENWAKEWORD = ''openWakeWord''"

definition PORCUPINE1 :: string where
  "PORCUPINE1 = ''porcupine1''"

definition SNOWBOY :: string where
  "SNOWBOY = ''snowboy''"

text \<open>
  The dataclass \<open>Settings\<close>. The dictionary \<open>wake_word\<close> is an association list in
  insertion order.
\<close>

record Settings =
  microphone_device :: "string option"
  sound_device :: "string option"
  feedback_sounds :: "string list"
  wake_word_system :: "string option"
  wake_word :: "(string \<times> string) list"
  satellite_name :: string
  satellite_type :: string

definition default_settings :: Settings where
  "default_settings =
     \<lparr>microphone_device = None, sound_device = None, feedback_sounds = [],
      wake_word_system = None, wake_word = [],
      satellite_name = ''Wyoming Satellite'', satellite_type = ALWAYS_STREAMING\<rparr>"

text \<open>
  The values that \<open>json.load\<close> returns and \<open>json.dump\<close> takes, as far as the settings use
  them: \<open>None\<close>, strings, lists and dictionaries with string keys. The text of the file
  in between is the library's matter: \<open>json.load\<close> is taken to return the value that
  \<open>json.dump\<close> was given.
\<close>

datatype json = JNull | JString string | JArray "json list" | JObject "(string \<times> json) list"

definition json_opt :: "string option \<Rightarrow> json" where
  "json_opt v = (case v of None \<Rightarrow> JNull | Some s \<Rightarrow> JString s)"

text \<open>\<open>asdict(self)\<close>, as \<open>json.dump\<close> sees it.\<close>

definition asdict :: "Settings \<Rightarrow> json" where
  "asdict s =
     JObject [(''microphone_device'', json_opt (microphone_device s)),
              (''sound_device'', json_opt (sound_device s)),
              (''feedback_sounds'', JArray (map JString (feedback_sounds s))),
              (''wake_word_system'', json_opt (wake_word_system s)),
              (''wake_word'', JObject (map (\<lambda>(k, v). (k, JString v)) (wake_word s))),
              (''satellite_name'', JString (satellite_name s)),
              (''satellite_type'', JString (satellite_type s))]"

text \<open>
  The loop of \<open>Settings.load\<close> over \<open>fields(Settings)\<close>: \<open>kwargs\<close> gets the fields whose
  value in the file is not \<open>None\<close> (a key that is missing reads as \<open>None\<close>).
\<close>

definition field_names :: "string list" where
  "field_names = [''microphone_device'', ''sound_device'', ''feedback_sounds'',
                  ''wake_word_system'', ''wake_word'', ''satellite_name'', ''satellite_type'']"

fun load_kwargs :: "(string \<times> json) list \<Rightarrow> string list \<Rightarrow> (string \<times> json) list \<Rightarrow> (string \<times> json) list" where
  "load_kwargs settings_dict [] kwargs = kwargs"
| "load_kwargs settings_dict (name # names) kwargs =
     (case map_of settings_dict name of
        None \<Rightarrow> load_kwargs settings_dict names kwargs
      | Some JNull \<Rightarrow> load_kwargs settings_dict names kwargs
      | Some v \<Rightarrow> load_kwargs settings_dict names (AList.update name v kwargs))"

text \<open>
  \<open>Settings(**kwargs)\<close>: a field that \<open>kwargs\<close> lacks takes its default. Python stores any
  value unchecked; the record is typed, so a value of another shape than the field's
  annotation cannot be stored, and the result is then \<open>None\<close>.
\<close>

fun as_str :: "json \<Rightarrow> string option" where
  "as_str (JString s) = Some s"
| "as_str _ = None"

fun as_str_list :: "json \<Rightarrow> string list option" where
  "as_str_list (JArray vs) =
     (if \<forall>v\<in>set vs. as_str v \<noteq> None then Some (map (\<lambda>v. the (as_str v)) vs) else None)"
| "as_str_list _ = None"

fun as_str_dict :: "json \<Rightarrow> (string \<times> string) list option" where
  "as_str_dict (JObject kvs) =
     (if \<forall>kv\<in>set kvs. as_str (snd kv) \<noteq> None
      then Some (map (\<lambda>kv. (fst kv, the (as_str (snd kv)))) kvs) else None)"
| "as_str_dict _ = None"

definition field :: "(string \<times> json) list \<Rightarrow> string \<Rightarrow> (json \<Rightarrow> 'a option) \<Rightarrow> 'a \<Rightarrow> 'a option" where
  "field kwargs name shape dflt =
     (case map_of kwargs name of None \<Rightarrow> Some dflt | Some v \<Rightarrow> shape v)"

definition Settings_init :: "(string \<times> json) list \<Rightarrow> Settings option" where
  "Settings_init kwargs =
     (case (field kwargs ''microphone_device'' (map_option Some \<circ> as_str) None,
            field kwargs ''sound_device'' (map_option Some \<circ> as_str) None,
            field kwargs ''feedback_sounds'' as_str_list [],
            field kwargs ''wake_word_system'' (map_option Some \<circ> as_str) None,
            field kwargs ''wake_word'' as_str_dict [],
            field kwargs ''satellite_name'' as_str ''Wyoming Satellite'',
            field kwargs ''satellite_type'' as_str ALWAYS_STREAMING) of
        (Some mic, Some snd_dev, Some sounds, Some sys, Some ww, Some name, Some ty) \<Rightarrow>
          Some \<lparr>microphone_device = mic, sound_device = snd_dev, feedback_sounds = sounds,
                wake_word_system = sys, wake_word = ww, satellite_name = name,
                satellite_type = ty\<rparr>
      | _ \<Rightarrow> None)"

text \<open>
  \<open>Settings.load\<close>, from the content of the settings file (\<open>None\<close> when there is no file).
  A file whose top level is no dictionary has no \<open>get\<close>.
\<close>

definition load :: "json option \<Rightarrow> exn + Settings option" where
  "load settings_file =
     (case settings_file of
        None \<Rightarrow> Inr (Settings_init [])
      | Some (JObject settings_dict) \<Rightarrow> Inr (Settings_init (load_kwargs settings_dict field_names []))
      | Some _ \<Rightarrow> Inl AttributeError)"

subsection \<open>The state of the wizard and its surroundings\<close>

text \<open>
  The settings object, the content of the settings file, the files the wizard has written,
  and the trace of what it did to the outside.
\<close>

record world =
  settings :: Settings
  settings_file :: "json option"
  files :: "(string \<times> string list) list"
  trace :: "event list"

text \<open>
  What the surroundings answer: the prompting tool, the units of work of the executor,
  which paths exist, the processes started with \<open>check_output\<close>, and the directory of the
  program (\<open>_PROGRAM_DIR\<close>).
\<close>

record env =
  prompt :: tool
  executor :: "nat \<Rightarrow> job"
  path_exists :: "string \<Rightarrow> bool"
  command_output :: "string list \<Rightarrow> string proc"
  program_dir :: string

definition path_join :: "string \<Rightarrow> string \<Rightarrow> string" where
  "path_join dir name = dir @ ''/'' @ name"

definition local_dir :: "env \<Rightarrow> string" where
  "local_dir e = path_join (program_dir e) ''local''"

text \<open>\<open>settings.save()\<close>: the file is rewritten from the settings object.\<close>

definition save :: "world \<Rightarrow> world" where
  "save w = w\<lparr>settings_file := Some (asdict (settings w))\<rparr>"

subsection \<open>Wake word handlers\<close>

text \<open>\<open>d.setdefault(key, default)\<close> on an association list.\<close>

definition setdefault :: "string \<Rightarrow> string \<Rightarrow> (string \<times> string) list \<Rightarrow> (string \<times> string) list" where
  "setdefault key dflt d = (case map_of d key of None \<Rightarrow> d @ [(key, dflt)] | Some v \<Rightarrow> d)"

text \<open>
  The part that the three branches of \<open>install_wake_word\<close> have in common up to the names:
  unless the directory exists, clone and set up; on failure tell the user, remove the
  directory and return (\<open>False\<close>). \<open>name\<close> is the engine's name in the messages and \<open>repo\<close>
  the name of its repository and directory.
\<close>

definition clone_and_setup :: "env \<Rightarrow> string \<Rightarrow> string \<Rightarrow> world \<Rightarrow> (bool \<times> world) option" where
  "clone_and_setup e name repo w =
     (let dir = path_join (local_dir e) repo in
      if path_exists e dir then Some (True, w)
      else (case run_with_gauge (executor e) (''Installing '' @ name)
                   [[''git'', ''clone'', ''https://github.com/rhasspy/'' @ repo @ ''.git'', dir],
                    [path_join (path_join dir ''script'') ''setup'']]
                   None (trace w) of
              None \<Rightarrow> None
            | Some (success, tr) \<Rightarrow>
                if success
                then Some (True, w\<lparr>trace := msgbox (prompt e) (name @ '' installed successfully'') tr\<rparr>)
                else Some (False,
                       w\<lparr>trace := msgbox (prompt e)
                            (''An error occurred while installing '' @ name @ ''. ''
                             @ ''See local/installer.log for details.'') tr
                          @ [Rmtree dir]\<rparr>)))"

definition select_system :: "string \<Rightarrow> string \<Rightarrow> string \<Rightarrow> world \<Rightarrow> world" where
  "select_system system key dflt w =
     save (w\<lparr>settings := (settings w)
               \<lparr>wake_word_system := Some system,
                wake_word := setdefault key dflt (wake_word (settings w))\<rparr>\<rparr>)"

text \<open>
  \<open>install_wake_word\<close>; \<open>system\<close> is its argument \<open>wake_word_system\<close>. The first two
  conditions test the requested system, the third the system stored in the settings. \<open>None\<close>: an installation command never ends.
\<close>

definition install_wake_word :: "env \<Rightarrow> world \<Rightarrow> string \<Rightarrow> world option" where
  "install_wake_word e w system =
     (if system = OPENWAKEWORD then
        (case clone_and_setup e ''openWakeWord'' ''wyoming-openwakeword'' w of
           None \<Rightarrow> None
         | Some (proceed, w') \<Rightarrow>
             Some (if proceed then select_system system OPENWAKEWORD ''ok_nabu'' w' else w'))
      else if system = PORCUPINE1 then
        (case clone_and_setup e ''porcupine1'' ''wyoming-porcupine1'' w of
           None \<Rightarrow> None
         | Some (proceed, w') \<Rightarrow>
             Some (if proceed then select_system system PORCUPINE1 ''porcupine'' w' else w'))
      else if wake_word_system (settings w) = Some SNOWBOY then
        (case clone_and_setup e ''snowboy'' ''wyoming-snowboy'' w of
           None \<Rightarrow> None
         | Some (proceed, w') \<Rightarrow>
             Some (if proceed then select_system system SNOWBOY ''snowboy'' w' else w'))
      else Some w)"

text \<open>
  One branch of \<open>select_wake_word\<close>: the radio list over \<open>items\<close>, preselecting the entry
  stored under \<open>shown_key\<close>, and on a selection the assignment to \<open>stored_key\<close> and the save.
\<close>

definition choose_wake_word :: "env \<Rightarrow> item list \<Rightarrow> string \<Rightarrow> string \<Rightarrow> world \<Rightarrow> exn + world" where
  "choose_wake_word e items shown_key stored_key w =
     (case radiolist (prompt e) ''Wake Word:'' items (map_of (wake_word (settings w)) shown_key) []
             (trace w) of
        Inl err \<Rightarrow> Inl err
      | Inr (None, tr) \<Rightarrow> Inr (w\<lparr>trace := tr\<rparr>)
      | Inr (Some chosen, tr) \<Rightarrow>
          Inr (save (w\<lparr>settings := (settings w)
                        \<lparr>wake_word := AList.update stored_key chosen (wake_word (settings w))\<rparr>,
                      trace := tr\<rparr>)))"

definition openwakeword_items :: "item list" where
  "openwakeword_items =
     [Tup ''ok_nabu'' ''ok nabu'', Tup ''hey_jarvis'' ''hey jarvis'', Tup ''alexa'' ''alexa'',
      Tup ''hey_mycroft'' ''hey mycroft'', Tup ''community'' ''Community Wake Words'']"

definition porcupine1_items :: "item list" where
  "porcupine1_items = [Tup ''porcupine'' ''porcupine'']"

definition snowboy_items :: "item list" where
  "snowboy_items =
     [Tup ''snowboy'' ''snowboy'', Tup ''jarvis'' ''jarvis'', Tup ''alexa'' ''alexa'',
      Tup ''smart_mirror'' ''smart mirror'', Tup ''view_glass'' ''view glass'',
      Tup ''hey_extreme'' ''hey extreme'', Tup ''neoya'' ''neoya'', Tup ''subex'' ''subex'']"

text \<open>\<open>select_wake_word\<close>, with its four conditions in the order of the source.\<close>

definition select_wake_word :: "env \<Rightarrow> world \<Rightarrow> exn + world" where
  "select_wake_word e w =
     (if wake_word_system (settings w) = Some OPENWAKEWORD then
        choose_wake_word e openwakeword_items OPENWAKEWORD OPENWAKEWORD w
      else if wake_word_system (settings w) = Some PORCUPINE1 then
        choose_wake_word e openwakeword_items OPENWAKEWORD OPENWAKEWORD w
      else if wake_word_system (settings w) = Some PORCUPINE1 then
        choose_wake_word e porcupine1_items PORCUPINE1 PORCUPINE1 w
      else if wake_word_system (settings w) = Some SNOWBOY then
        choose_wake_word e snowboy_items SNOWBOY SNOWBOY w
      else Inr w)"

subsection \<open>Sound feedback\<close>

text \<open>
  The branch \<open>choice == "feedback"\<close> of \<open>configure_sound\<close>, the one caller of \<open>checklist\<close>:
  a result that is not \<open>None\<close> is stored and saved.
\<close>

definition configure_sound_feedback :: "env \<Rightarrow> world \<Rightarrow> exn + world" where
  "configure_sound_feedback e w =
     (case checklist (prompt e) ''Enabled Sounds:''
             [Tup ''awake'' ''On wake-up'', Tup ''done'' ''After voice command'']
             (feedback_sounds (settings w)) [] (trace w) of
        Inl err \<Rightarrow> Inl err
      | Inr (None, tr) \<Rightarrow> Inr (w\<lparr>trace := tr\<rparr>)
      | Inr (Some sounds, tr) \<Rightarrow>
          Inr (save (w\<lparr>settings := (settings w)\<lparr>feedback_sounds := sounds\<rparr>, trace := tr\<rparr>)))"

subsection \<open>Generating the service file\<close>

text \<open>\<open>str.strip()\<close>, for the white space of ASCII.\<close>

definition is_space :: "char \<Rightarrow> bool" where
  "is_space c = (let n = (of_char c :: nat) in (9 \<le> n \<and> n \<le> 13) \<or> (28 \<le> n \<and> n \<le> 32))"

definition strip :: "string \<Rightarrow> string" where
  "strip s = rev (dropWhile is_space (rev (dropWhile is_space s)))"

text \<open>
  \<open>shlex.quote\<close> and \<open>shlex.join\<close>: a string of safe characters stays as it is, any other is
  put in single quotes, each single quote inside it written as \<open>'"'"'\<close>.
\<close>

definition is_safe :: "char \<Rightarrow> bool" where
  "is_safe c = (let n = (of_char c :: nat) in
      (48 \<le> n \<and> n \<le> 57) \<or> (65 \<le> n \<and> n \<le> 90) \<or> (97 \<le> n \<and> n \<le> 122)
      \<or> c \<in> set ''_@%+=:,./-'')"

definition shlex_quote :: "string \<Rightarrow> string" where
  "shlex_quote s =
     (if s = [] then [CHR 0x27, CHR 0x27]
      else if \<forall>c\<in>set s. is_safe c then s
      else [CHR 0x27]
           @ concat (map (\<lambda>c. if c = CHR 0x27
                                then [CHR 0x27, CHR 0x22, CHR 0x27, CHR 0x22, CHR 0x27] else [c]) s)
           @ [CHR 0x27])"

fun shlex_join :: "string list \<Rightarrow> string" where
  "shlex_join [] = []"
| "shlex_join [arg] = shlex_quote arg"
| "shlex_join (arg # args) = shlex_quote arg @ '' '' @ shlex_join args"

text \<open>
  \<open>generate_services\<close>. An exception of \<open>check_output\<close> is not caught. The file is the list
  of the lines printed to it.
\<close>

definition generate_services :: "env \<Rightarrow> world \<Rightarrow> exn + world" where
  "generate_services e w =
     (case microphone_device (settings w) of
        None \<Rightarrow> Inr (w\<lparr>trace := msgbox (prompt e) ''Please configure microphone'' (trace w)\<rparr>)
      | Some mic \<Rightarrow>
          (let services_dir = path_join (local_dir e) ''services'' in
           case check_output (command_output e [''id'', ''--name'', ''-u'']) of
             Inl err \<Rightarrow> Inl err
           | Inr user_out \<Rightarrow>
               (case check_output (command_output e [''id'', ''--name'', ''-g'']) of
                  Inl err \<Rightarrow> Inl err
                | Inr group_out \<Rightarrow>
                    (let user = strip user_out;
                         group = strip group_out;
                         satellite_command =
                           [path_join (path_join (program_dir e) ''script'') ''run'',
                            ''--name'', satellite_name (settings w),
                            ''--uri'', ''tcp://0.0.0.0:10700'',
                            ''--mic-command'',
                            ''arecord -D '' @ mic @ '' -q -r 16000 -c 1 -f S16_LE -t raw'']
                           @ (if satellite_type (settings w) = VAD then [''--vad''] else []);
                         satellite_command_str = shlex_join satellite_command;
                         service_file =
                           [''[Unit]'',
                            ''Description=Wyoming Satellite'',
                            ''Wants=network-online.target'',
                            ''After=network-online.target'',
                            [],
                            ''[Service]'',
                            ''Type=simple'',
                            ''User='' @ user,
                            ''Group='' @ group,
                            ''ExecStart='' @ satellite_command_str,
                            ''WorkingDirectory='' @ program_dir e,
                            ''Restart=always'',
                            ''RestartSec=1'',
                            [],
                            ''[Install]'',
                            ''WantedBy=default.target'']
                     in Inr (w\<lparr>files := AList.update (path_join services_dir ''wyoming-satellite.service'')
                                          service_file (files w),
                                trace := msgbox (prompt e) ''Services generated''
                                           (trace w @ [Mkdir services_dir,
                                                       CheckOutput [''id'', ''--name'', ''-u''],
                                                       CheckOutput [''id'', ''--name'', ''-g'']])\<rparr>)))))"


subsection \<open>Example surroundings\<close>

text \<open>
  A user who confirms every dialog with the first entry, commands that all succeed after
  two ticks of the gauge, and no engine installed yet.
\<close>

definition example_env :: env where
  "example_env =
     \<lparr>prompt = (\<lambda>argv. (0, ''0'')),
      executor = (\<lambda>n. \<lparr>done_at = (\<lambda>k. 2 \<le> k), process = Exited 0 []\<rparr>),
      path_exists = (\<lambda>p. False),
      command_output = (\<lambda>argv. Exited 0 ''pi''),
      program_dir = ''/home/pi/wyoming-satellite''\<rparr>"

text \<open>The wizard at its start, with no settings file.\<close>

definition example_world :: world where
  "example_world = \<lparr>settings = default_settings, settings_file = None, files = [], trace = []\<rparr>"

text \<open>
  Settings with porcupine1 selected and wake words stored for two other engines.
\<close>

definition example_settings :: Settings where
  "example_settings =
     \<lparr>microphone_device = Some ''plughw:CARD=seeed2micvoicec,DEV=0'', sound_device = None,
      feedback_sounds = [''awake''],
      wake_word_system = Some PORCUPINE1,
      wake_word = [(OPENWAKEWORD, ''ok_nabu''), (SNOWBOY, ''jarvis'')],
      satellite_name = ''Kitchen'', satellite_type = WAKE\<rparr>"


subsection \<open>Reading the choice tables\<close>

text \<open>The domain value and the label of an item.\<close>

fun item_value :: "item \<Rightarrow> string" where
  "item_value (Str s) = s"
| "item_value (Tup v l) = v"

fun item_label :: "item \<Rightarrow> string" where
  "item_label (Str s) = s"
| "item_label (Tup v l) = l"

text \<open>
  The output of the tool for a list of checked tags: the tags in decimal, each bare or in
  double quotes (the flag), with one blank between two of them.
\<close>

definition tag_text :: "bool \<times> nat \<Rightarrow> string" where
  "tag_text t = (if fst t then [CHR 0x22] @ str_nat (snd t) @ [CHR 0x22] else str_nat (snd t))"

fun checked_text :: "(bool \<times> nat) list \<Rightarrow> string" where
  "checked_text [] = []"
| "checked_text [t] = tag_text t"
| "checked_text (t # ts) = tag_text t @ '' '' @ checked_text ts"


text \<open>A character that neither separates tokens, nor quotes, nor escapes.\<close>

definition plain :: "char \<Rightarrow> bool" where
  "plain c = (c \<notin> whitespace \<and> c \<notin> quotes \<and> c \<noteq> escape)"

subsection \<open>Reading the trace\<close>

text \<open>
  The commands handed to the executor, the commands for which a process was spawned, and
  what was written to the input of the processes, each in the order of the trace.
\<close>

fun submitted :: "event list \<Rightarrow> string list list" where
  "submitted [] = []"
| "submitted (Submit command # tr) = command # submitted tr"
| "submitted (e # tr) = submitted tr"

fun spawned :: "event list \<Rightarrow> string list list" where
  "spawned [] = []"
| "spawned (Popen command # tr) = command # spawned tr"
| "spawned (e # tr) = spawned tr"

fun inputs :: "event list \<Rightarrow> (string list \<times> string option) list" where
  "inputs [] = []"
| "inputs (Communicate command proc_input # tr) = (command, proc_input) # inputs tr"
| "inputs (e # tr) = inputs tr"

text \<open>A unit of work succeeds: the command is not empty, is spawned and returns 0.\<close>

definition succeeds :: "job \<Rightarrow> string list \<Rightarrow> bool" where
  "succeeds j command =
     (command \<noteq> [] \<and> (case process j of SpawnError \<Rightarrow> False | Exited returncode stderr \<Rightarrow> returncode = 0))"


text \<open>
  Three commands as an installation runs them, and an executor whose second unit of work
  exits with code 1.
\<close>

definition example_commands :: "string list list" where
  "example_commands =
     [[''git'', ''clone'', ''https://github.com/rhasspy/wyoming-snowboy.git'', ''local/wyoming-snowboy''],
      [''local/wyoming-snowboy/script/setup''],
      [''sudo'', ''-S'', ''systemctl'', ''daemon-reload'']]"

definition second_fails :: "nat \<Rightarrow> job" where
  "second_fails n =
     \<lparr>done_at = (\<lambda>k. 2 \<le> k),
      process = (if n = 1 then Exited 1 ''fatal: unable to access'' else Exited 0 [])\<rparr>"


text \<open>
  One command at a time, read off the trace. \<open>cur\<close> is \<open>None\<close> before the first command is
  handed over, and afterwards the number of times the future of the running unit of work
  (the \<open>n\<close>-th) has answered that it is not done. A value goes to the gauge only after
  such an answer; the next command is handed over, and the trace ends, only after the
  future has answered that it is done.
\<close>

fun one_at_a_time :: "(nat \<Rightarrow> job) \<Rightarrow> nat \<Rightarrow> nat option \<Rightarrow> event list \<Rightarrow> bool" where
  "one_at_a_time jobs n None [] = True"
| "one_at_a_time jobs n (Some k) [] = done_at (jobs n) k"
| "one_at_a_time jobs n None (Submit command # tr) = one_at_a_time jobs n (Some 0) tr"
| "one_at_a_time jobs n (Some k) (Submit command # tr) =
     (done_at (jobs n) k \<and> one_at_a_time jobs (Suc n) (Some 0) tr)"
| "one_at_a_time jobs n None (Gauge percent # tr) = False"
| "one_at_a_time jobs n (Some k) (Gauge percent # tr) =
     (\<not> done_at (jobs n) k \<and> one_at_a_time jobs n (Some (Suc k)) tr)"
| "one_at_a_time jobs n cur (e # tr) = one_at_a_time jobs n cur tr"

text \<open>An executor whose units of work never end.\<close>

definition never_ends :: "nat \<Rightarrow> job" where
  "never_ends n = \<lparr>done_at = (\<lambda>k. False), process = Exited 0 []\<rparr>"


section \<open>Properties\<close>

subsection \<open>Device selection\<close>

lemma detect_loop_below:
  "\<forall>p\<in>set items. snd p < thr \<Longrightarrow> detect_loop thr items best = best"
  by (induction items arbitrary: best) auto

lemma detect_loop_keep:
  "\<forall>p\<in>set items. snd p \<le> s \<Longrightarrow> detect_loop thr items (Some (d, s)) = Some (d, s)"
  by (induction items) auto

lemma detect_loop_prefix:
  assumes "\<forall>p\<in>set pre. snd p < s" and "thr \<le> s"
    and "case best of None \<Rightarrow> True | Some b \<Rightarrow> snd b < s"
  shows "detect_loop thr (pre @ (d, s) # post) best = detect_loop thr post (Some (d, s))"
  using assms
proof (induction pre arbitrary: best)
  case Nil
  then show ?case by (auto split: option.splits)
next
  case (Cons p pre)
  obtain pd ps where p: "p = (pd, ps)" by (cases p)
  from Cons.prems have ps: "ps < s" by (simp add: p)
  have step: "detect_loop thr (pre @ (d, s) # post) b = detect_loop thr post (Some (d, s))"
    if "case b of None \<Rightarrow> True | Some b \<Rightarrow> snd b < s" for b
    using Cons.IH [of b] Cons.prems that by simp
  show ?case
    using step [of best] step [of "Some (pd, ps)"] Cons.prems(3) ps
    by (auto simp: p split: option.splits)
qed

lemma detect_loop_first_max:
  assumes "\<forall>p\<in>set pre. snd p < s" and "thr \<le> s" and "\<forall>p\<in>set post. snd p \<le> s"
  shows "detect_loop thr (pre @ (d, s) # post) None = Some (d, s)"
  using detect_loop_prefix [of pre s thr None d post] detect_loop_keep [of post s thr d] assms
  by simp

lemma detect_loop_split:
  assumes "detect_loop thr items best = Some (d, s)"
    and "case best of None \<Rightarrow> True | Some b \<Rightarrow> thr \<le> snd b"
  shows "(best = Some (d, s) \<and> (\<forall>p\<in>set items. snd p \<le> s)) \<or>
         (\<exists>pre post. items = pre @ (d, s) # post \<and> thr \<le> s \<and>
            (\<forall>p\<in>set pre. snd p < s) \<and> (\<forall>p\<in>set post. snd p \<le> s) \<and>
            (case best of None \<Rightarrow> True | Some b \<Rightarrow> snd b < s))"
  using assms
proof (induction items arbitrary: best)
  case Nil
  then show ?case by simp
next
  case (Cons p items)
  obtain pd ps where p: "p = (pd, ps)" by (cases p)
  show ?case
  proof (cases "ps < thr")
    case True
    with Cons.prems have run: "detect_loop thr items best = Some (d, s)" by (simp add: p)
    from Cons.IH [OF run Cons.prems(2)] show ?thesis
    proof
      assume a: "best = Some (d, s) \<and> (\<forall>p\<in>set items. snd p \<le> s)"
      with Cons.prems(2) True have "ps \<le> s" by simp
      with a show ?thesis by (simp add: p)
    next
      assume "\<exists>pre post. items = pre @ (d, s) # post \<and> thr \<le> s \<and>
            (\<forall>p\<in>set pre. snd p < s) \<and> (\<forall>p\<in>set post. snd p \<le> s) \<and>
            (case best of None \<Rightarrow> True | Some b \<Rightarrow> snd b < s)"
      then obtain pre post where a: "items = pre @ (d, s) # post" "thr \<le> s"
        "\<forall>p\<in>set pre. snd p < s" "\<forall>p\<in>set post. snd p \<le> s"
        "case best of None \<Rightarrow> True | Some b \<Rightarrow> snd b < s" by blast
      have "p # items = (p # pre) @ (d, s) # post" using a(1) by simp
      moreover have "\<forall>q\<in>set (p # pre). snd q < s" using a(2,3) True by (auto simp: p)
      ultimately show ?thesis using a(2,4,5) by blast
    qed
  next
    case False
    show ?thesis
    proof (cases "case best of None \<Rightarrow> True | Some b \<Rightarrow> snd b < ps")
      case True
      with False Cons.prems have run: "detect_loop thr items (Some (pd, ps)) = Some (d, s)"
        by (auto simp: p split: option.splits)
      have inv: "case Some (pd, ps) of None \<Rightarrow> True | Some b \<Rightarrow> thr \<le> snd b"
        using False by simp
      from Cons.IH [OF run inv] show ?thesis
      proof
        assume a: "Some (pd, ps) = Some (d, s) \<and> (\<forall>p\<in>set items. snd p \<le> s)"
        then have "p # items = [] @ (d, s) # items" by (simp add: p)
        moreover have "thr \<le> s" using a False by simp
        moreover have "case best of None \<Rightarrow> True | Some b \<Rightarrow> snd b < s"
          using a True by (auto split: option.splits)
        moreover have "\<forall>q\<in>set []. snd q < s" by simp
        ultimately show ?thesis using a by blast
      next
        assume "\<exists>pre post. items = pre @ (d, s) # post \<and> thr \<le> s \<and>
            (\<forall>p\<in>set pre. snd p < s) \<and> (\<forall>p\<in>set post. snd p \<le> s) \<and>
            (case Some (pd, ps) of None \<Rightarrow> True | Some b \<Rightarrow> snd b < s)"
        then obtain pre post where a: "items = pre @ (d, s) # post" "thr \<le> s"
          "\<forall>p\<in>set pre. snd p < s" "\<forall>p\<in>set post. snd p \<le> s" "ps < s" by auto
        have "p # items = (p # pre) @ (d, s) # post" using a(1) by simp
        moreover have "\<forall>q\<in>set (p # pre). snd q < s" using a(3,5) by (auto simp: p)
        moreover have "case best of None \<Rightarrow> True | Some b \<Rightarrow> snd b < s"
          using True a(5) by (auto split: option.splits)
        ultimately show ?thesis using a(2,4) by blast
      qed
    next
      case nb: False
      then obtain bd bs where best: "best = Some (bd, bs)" and le: "ps \<le> bs"
        by (auto split: option.splits)
      with False Cons.prems have run: "detect_loop thr items best = Some (d, s)"
        by (auto simp: p)
      from Cons.IH [OF run Cons.prems(2)] show ?thesis
      proof
        assume a: "best = Some (d, s) \<and> (\<forall>p\<in>set items. snd p \<le> s)"
        with best le show ?thesis by (simp add: p)
      next
        assume "\<exists>pre post. items = pre @ (d, s) # post \<and> thr \<le> s \<and>
            (\<forall>p\<in>set pre. snd p < s) \<and> (\<forall>p\<in>set post. snd p \<le> s) \<and>
            (case best of None \<Rightarrow> True | Some b \<Rightarrow> snd b < s)"
        then obtain pre post where a: "items = pre @ (d, s) # post" "thr \<le> s"
          "\<forall>p\<in>set pre. snd p < s" "\<forall>p\<in>set post. snd p \<le> s" "bs < s"
          by (auto simp: best)
        have "p # items = (p # pre) @ (d, s) # post" using a(1) by simp
        moreover have "\<forall>q\<in>set (p # pre). snd q < s" using a(3,5) le by (auto simp: p)
        moreover have "case best of None \<Rightarrow> True | Some b \<Rightarrow> snd b < s"
          using a(5) best by simp
        ultimately show ?thesis using a(2,4) by blast
      qed
    qed
  qed
qed

lemma detect_loop_Some: "detect_loop thr items (Some b) \<noteq> None"
  by (induction items arbitrary: b) (auto split: prod.splits)

lemma detect_loop_found:
  "\<exists>p\<in>set items. thr \<le> snd p \<Longrightarrow> detect_loop thr items best \<noteq> None"
proof (induction items arbitrary: best)
  case Nil
  then show ?case by simp
next
  case (Cons p items)
  obtain pd ps where p: "p = (pd, ps)" by (cases p)
  show ?case
  proof (cases "ps < thr")
    case True
    with Cons.prems have "\<exists>q\<in>set items. thr \<le> snd q" by (auto simp: p)
    from Cons.IH [OF this] True show ?thesis by (simp add: p)
  next
    case False
    then show ?thesis
      using detect_loop_Some [of thr items] by (cases best) (auto simp: p)
  qed
qed

text \<open>
  C2. Over the probe results in candidate order, the selection returns the first entry that
  carries the greatest score, provided that score reaches the threshold: every earlier entry
  scores strictly less (so of two equal top scores the earlier one is chosen) and no later
  entry scores more. It reports that nothing was found exactly when every score is below
  the threshold.
\<close>

theorem device_selection:
  "(detect_loop thr items None = None \<longleftrightarrow> (\<forall>p\<in>set items. snd p < thr)) \<and>
   (detect_loop thr items None = Some (d, s) \<longleftrightarrow>
      (\<exists>pre post. items = pre @ (d, s) # post \<and> thr \<le> s \<and>
         (\<forall>p\<in>set pre. snd p < s) \<and> (\<forall>p\<in>set post. snd p \<le> s)))"
proof (intro conjI iffI)
  assume "detect_loop thr items None = None"
  then show "\<forall>p\<in>set items. snd p < thr"
    using detect_loop_found [of items thr None] by (meson not_le)
next
  assume "\<forall>p\<in>set items. snd p < thr"
  then show "detect_loop thr items None = None"
    by (rule detect_loop_below)
next
  assume "detect_loop thr items None = Some (d, s)"
  from detect_loop_split [OF this]
  show "\<exists>pre post. items = pre @ (d, s) # post \<and> thr \<le> s \<and>
         (\<forall>p\<in>set pre. snd p < s) \<and> (\<forall>p\<in>set post. snd p \<le> s)"
    by auto
next
  assume "\<exists>pre post. items = pre @ (d, s) # post \<and> thr \<le> s \<and>
         (\<forall>p\<in>set pre. snd p < s) \<and> (\<forall>p\<in>set post. snd p \<le> s)"
  then show "detect_loop thr items None = Some (d, s)"
    using detect_loop_first_max by blast
qed

theorem device_selection_witness:
  "detect_loop 40 [(''plughw:CARD=a'', 50), (''plughw:CARD=b'', 50)] None = Some (''plughw:CARD=a'', 50) \<and>
   detect_loop 30 [(''plughw:CARD=a'', 5), (''plughw:CARD=b'', 45), (''plughw:CARD=c'', 60), (''plughw:CARD=d'', 20)] None
     = Some (''plughw:CARD=c'', 60) \<and>
   detect_loop 30 [(''plughw:CARD=a'', 5), (''plughw:CARD=b'', 29)] None = None"
proof (intro conjI)
  have "\<exists>pre post. [(''plughw:CARD=a'', 50::real), (''plughw:CARD=b'', 50)] = pre @ (''plughw:CARD=a'', 50) # post \<and>
          (40::real) \<le> 50 \<and> (\<forall>p\<in>set pre. snd p < 50) \<and> (\<forall>p\<in>set post. snd p \<le> 50)"
    by (rule exI [of _ "[]"], rule exI [of _ "[(''plughw:CARD=b'', 50)]"]) simp
  then show "detect_loop 40 [(''plughw:CARD=a'', 50), (''plughw:CARD=b'', 50)] None = Some (''plughw:CARD=a'', 50)"
    using device_selection [of 40 "[(''plughw:CARD=a'', 50), (''plughw:CARD=b'', 50)]" "''plughw:CARD=a''" 50]
    by blast
next
  have "\<exists>pre post. [(''plughw:CARD=a'', 5::real), (''plughw:CARD=b'', 45), (''plughw:CARD=c'', 60), (''plughw:CARD=d'', 20)]
            = pre @ (''plughw:CARD=c'', 60) # post \<and>
          (30::real) \<le> 60 \<and> (\<forall>p\<in>set pre. snd p < 60) \<and> (\<forall>p\<in>set post. snd p \<le> 60)"
    by (rule exI [of _ "[(''plughw:CARD=a'', 5), (''plughw:CARD=b'', 45)]"],
        rule exI [of _ "[(''plughw:CARD=d'', 20)]"]) simp
  then show "detect_loop 30 [(''plughw:CARD=a'', 5), (''plughw:CARD=b'', 45), (''plughw:CARD=c'', 60), (''plughw:CARD=d'', 20)] None
     = Some (''plughw:CARD=c'', 60)"
    using device_selection [of 30 "[(''plughw:CARD=a'', 5), (''plughw:CARD=b'', 45), (''plughw:CARD=c'', 60), (''plughw:CARD=d'', 20)]"
        "''plughw:CARD=c''" 60]
    by blast
next
  have "\<forall>p\<in>set [(''plughw:CARD=a'', 5::real), (''plughw:CARD=b'', 29)]. snd p < 30"
    by simp
  then show "detect_loop 30 [(''plughw:CARD=a'', 5), (''plughw:CARD=b'', 29)] None = None"
    using device_selection [of 30 "[(''plughw:CARD=a'', 5), (''plughw:CARD=b'', 29)]"]
    by blast
qed

subsection \<open>Decimal tags\<close>

lemma of_char_digit: "d < 10 \<Longrightarrow> of_char (digit_char d) = 48 + d"
  by (simp add: digit_char_def)

lemma digit_char_inj: "d < 10 \<Longrightarrow> d' < 10 \<Longrightarrow> digit_char d = digit_char d' \<Longrightarrow> d = d'"
  using of_char_digit [of d] of_char_digit [of d'] by (metis add_left_cancel)

lemma str_nat_nonempty: "str_nat n \<noteq> []"
  by (subst str_nat.simps) simp

lemma str_nat_length: "10 \<le> n \<Longrightarrow> 2 \<le> length (str_nat n)"
  using str_nat_nonempty [of "n div 10"]
  by (subst str_nat.simps) (simp add: Suc_le_eq)

lemma str_nat_inj: "str_nat m = str_nat n \<Longrightarrow> m = n"
proof (induction m arbitrary: n rule: less_induct)
  case (less m)
  show ?case
  proof (cases "m < 10")
    case True
    show ?thesis
    proof (cases "n < 10")
      case n: True
      with True less.prems show ?thesis
        by (simp add: str_nat.simps [of m] str_nat.simps [of n] digit_char_inj)
    next
      case False
      then have "2 \<le> length (str_nat n)" by (simp add: str_nat_length)
      moreover have "length (str_nat m) = 1" using True by (simp add: str_nat.simps [of m])
      ultimately show ?thesis using less.prems by simp
    qed
  next
    case False
    show ?thesis
    proof (cases "n < 10")
      case True
      have "2 \<le> length (str_nat m)" using False by (simp add: str_nat_length)
      moreover have "length (str_nat n) = 1" using True by (simp add: str_nat.simps [of n])
      ultimately show ?thesis using less.prems by simp
    next
      case n: False
      from False n less.prems
      have eq: "str_nat (m div 10) @ [digit_char (m mod 10)] = str_nat (n div 10) @ [digit_char (n mod 10)]"
        by (simp add: str_nat.simps [of m] str_nat.simps [of n])
      then have a: "str_nat (m div 10) = str_nat (n div 10)"
        and b: "digit_char (m mod 10) = digit_char (n mod 10)" by simp_all
      have "m div 10 < m" using False by simp
      from less.IH [OF this a] have "m div 10 = n div 10" .
      moreover from b have "m mod 10 = n mod 10" by (simp add: digit_char_inj)
      ultimately show ?thesis by (metis div_mult_mod_eq)
    qed
  qed
qed

subsection \<open>Splitting the output of the check list\<close>

lemma digit_plain: "d < 10 \<Longrightarrow> plain (digit_char d)"
proof -
  assume d: "d < 10"
  have "\<not> plain c \<Longrightarrow> (of_char c :: nat) \<in> {32, 9, 13, 10, 39, 34, 92}" for c
    by (auto simp: plain_def whitespace_def quotes_def escape_def)
  with of_char_digit [OF d] d show ?thesis by fastforce
qed

lemma str_nat_plain: "\<forall>c\<in>set (str_nat n). plain c"
proof (induction n rule: str_nat.induct)
  case (1 n)
  show ?case
  proof (cases "n < 10")
    case True
    then show ?thesis by (simp add: str_nat.simps [of n] digit_plain)
  next
    case False
    with 1 show ?thesis by (simp add: str_nat.simps [of n] digit_plain)
  qed
qed


lemma read_word: "\<forall>c\<in>set w. plain c \<Longrightarrow>
    read_tokens InWord t q acc (w @ rest) = read_tokens InWord (t @ w) q acc rest"
  by (induction w arbitrary: t) (auto simp: plain_def)

lemma read_quoted: "\<forall>c\<in>set w. plain c \<Longrightarrow>
    read_tokens (InQuote (CHR 0x22)) t True acc (w @ rest)
      = read_tokens (InQuote (CHR 0x22)) (t @ w) True acc rest"
  by (induction w arbitrary: t) (auto simp: plain_def quotes_def)

lemma read_bare_tag:
  assumes "\<forall>c\<in>set w. plain c" and "w \<noteq> []"
  shows "read_tokens Between [] False acc (w @ rest) = read_tokens InWord w False acc rest"
proof -
  obtain c w' where w: "w = c # w'" using assms(2) by (cases w) auto
  have "read_tokens Between [] False acc (w @ rest) = read_tokens InWord [c] False acc (w' @ rest)"
    using assms(1) by (simp add: w plain_def)
  also have "\<dots> = read_tokens InWord ([c] @ w') False acc rest"
    using assms(1) by (intro read_word) (simp add: w)
  finally show ?thesis by (simp add: w)
qed

lemma read_quoted_tag:
  assumes "\<forall>c\<in>set w. plain c" and "w \<noteq> []"
  shows "read_tokens Between [] False acc (CHR 0x22 # w @ CHR 0x22 # rest)
           = read_tokens InWord w True acc rest"
proof -
  obtain c w' where w: "w = c # w'" using assms(2) by (cases w) auto
  have c: "c \<noteq> CHR 0x22" "c \<noteq> escape" using assms(1) by (auto simp: w plain_def quotes_def)
  have "read_tokens Between [] False acc (CHR 0x22 # w @ CHR 0x22 # rest)
          = read_tokens (InQuote (CHR 0x22)) [] False acc (w @ CHR 0x22 # rest)"
    by (simp add: whitespace_def escape_def quotes_def)
  also have "\<dots> = read_tokens (InQuote (CHR 0x22)) [c] True acc (w' @ CHR 0x22 # rest)"
    using c by (simp add: w)
  also have "\<dots> = read_tokens (InQuote (CHR 0x22)) ([c] @ w') True acc (CHR 0x22 # rest)"
    using assms(1) by (intro read_quoted) (simp add: w)
  also have "\<dots> = read_tokens InWord w True acc rest"
    by (simp add: w)
  finally show ?thesis .
qed

lemma read_tag:
  "read_tokens Between [] False acc (tag_text t @ rest)
     = read_tokens InWord (str_nat (snd t)) (fst t) acc rest"
  using read_bare_tag [OF str_nat_plain str_nat_nonempty, of acc "snd t" rest]
        read_quoted_tag [OF str_nat_plain str_nat_nonempty, of acc "snd t" rest]
  by (cases "fst t") (simp_all add: tag_text_def)

lemma read_checked_text:
  "read_tokens Between [] False acc (checked_text ts) = Inr (acc @ map (\<lambda>t. str_nat (snd t)) ts)"
proof (induction ts arbitrary: acc rule: checked_text.induct)
  case 1
  then show ?case by simp
next
  case (2 t)
  show ?case
    using read_tag [of acc t "[]"] by (simp add: str_nat_nonempty)
next
  case (3 t u ts)
  have "read_tokens Between [] False acc (checked_text (t # u # ts))
          = read_tokens InWord (str_nat (snd t)) (fst t) acc (CHR '' '' # checked_text (u # ts))"
    using read_tag [of acc t "CHR '' '' # checked_text (u # ts)"] by simp
  also have "\<dots> = read_tokens Between [] False (acc @ [str_nat (snd t)]) (checked_text (u # ts))"
    by (simp add: whitespace_def str_nat_nonempty)
  also have "\<dots> = Inr ((acc @ [str_nat (snd t)]) @ map (\<lambda>t. str_nat (snd t)) (u # ts))"
    by (rule "3.IH")
  finally show ?case by simp
qed

lemma shlex_split_checked: "shlex_split (checked_text ts) = Inr (map (\<lambda>t. str_nat (snd t)) ts)"
  by (simp add: shlex_split_def read_checked_text)

subsection \<open>The choice tables\<close>

lemma menu_items_other:
  "(\<And>j. j < length items \<Longrightarrow> k \<noteq> str_nat (i + j)) \<Longrightarrow> fst (menu_items i items (m, a)) k = m k"
proof (induction items arbitrary: i m a)
  case Nil
  then show ?case by simp
next
  case (Cons it items)
  have k: "k \<noteq> str_nat i" using Cons.prems [of 0] by simp
  have later: "\<And>j. j < length items \<Longrightarrow> k \<noteq> str_nat (Suc i + j)"
    using Cons.prems [of "Suc j" for j] by simp
  show ?case using Cons.IH [OF later] k by (cases it) simp_all
qed

lemma menu_items_at:
  "j < length items \<Longrightarrow> fst (menu_items i items (m, a)) (str_nat (i + j)) = Some (item_value (items ! j))"
proof (induction items arbitrary: i j m a)
  case Nil
  then show ?case by simp
next
  case (Cons it items)
  show ?case
  proof (cases j)
    case 0
    have "\<And>j'. j' < length items \<Longrightarrow> str_nat i \<noteq> str_nat (Suc i + j')"
      using str_nat_inj by fastforce
    from menu_items_other [of items "str_nat i" "Suc i", OF this] 0
    show ?thesis by (cases it) simp_all
  next
    case (Suc j')
    with Cons.prems have "j' < length items" by simp
    from Cons.IH [OF this, of "Suc i"] Suc show ?thesis by (cases it) simp_all
  qed
qed

lemma menu_items_args:
  "snd (menu_items i items (m, a))
     = a @ concat (map (\<lambda>(k, it). [str_nat k, item_label it]) (enumerate i items))"
proof (induction items arbitrary: i m a)
  case Nil
  then show ?case by simp
next
  case (Cons it items)
  then show ?case by (cases it) simp_all
qed

lemma radiolist_items_map:
  "fst (radiolist_items sel i items (m, a)) = fst (menu_items i items (m, b))"
proof (induction items arbitrary: i m a b)
  case Nil
  then show ?case by simp
next
  case (Cons it items)
  then show ?case by (cases it) simp_all
qed

lemma checklist_items_map:
  "fst (checklist_items sel i items (m, a)) = fst (menu_items i items (m, b))"
proof (induction items arbitrary: i m a b)
  case Nil
  then show ?case by simp
next
  case (Cons it items)
  then show ?case by (cases it) simp_all
qed

lemma whiptail_trace: "snd (whiptail tool args tr) = tr @ [Dialog ([''whiptail'', ''--title'', TITLE] @ args)]"
  by (simp add: whiptail_def Let_def split: prod.splits)

subsection \<open>Settings\<close>

lemma engines_distinct:
  "SNOWBOY \<noteq> OPENWAKEWORD" "SNOWBOY \<noteq> PORCUPINE1" "OPENWAKEWORD \<noteq> PORCUPINE1"
  "PORCUPINE1 \<noteq> OPENWAKEWORD" "PORCUPINE1 \<noteq> SNOWBOY" "OPENWAKEWORD \<noteq> SNOWBOY"
  by (simp_all add: SNOWBOY_def OPENWAKEWORD_def PORCUPINE1_def)

lemma as_str_list_strings: "as_str_list (JArray (map JString xs)) = Some xs"
  by (simp add: comp_def)

lemma as_str_dict_strings: "as_str_dict (JObject (map (\<lambda>(k, v). (k, JString v)) d)) = Some d"
  by (simp add: comp_def case_prod_beta)

lemma load_asdict: "load (Some (asdict s)) = Inr (Some s)"
proof -
  obtain mic snd_dev sounds sys ww name ty where s:
    "s = \<lparr>microphone_device = mic, sound_device = snd_dev, feedback_sounds = sounds,
          wake_word_system = sys, wake_word = ww, satellite_name = name, satellite_type = ty\<rparr>"
    by (cases s) simp
  show ?thesis
    by (cases mic; cases snd_dev; cases sys)
       (simp_all add: s load_def asdict_def field_names_def json_opt_def Settings_init_def field_def
          as_str_list_strings as_str_dict_strings del: as_str_list.simps as_str_dict.simps)
qed

text \<open>
  C5. Saving the settings and loading them again gives the same settings, field by field,
  whatever the settings are: in particular a wake word stored for an engine that is not
  the selected one is still there. (A member of one of the two enumerations is the string
  of its value; the loaded value is that string.)
\<close>

theorem settings_roundtrip: "load (settings_file (save w)) = Inr (Some (settings w))"
  by (simp add: save_def load_asdict)

theorem settings_roundtrip_witness:
  "load (settings_file (save (example_world\<lparr>settings := example_settings\<rparr>))) = Inr (Some example_settings) \<and>
   wake_word_system example_settings = Some PORCUPINE1 \<and>
   map_of (wake_word example_settings) SNOWBOY = Some ''jarvis''"
  using settings_roundtrip [of "example_world\<lparr>settings := example_settings\<rparr>"]
  by (simp add: example_settings_def engines_distinct)

subsection \<open>Handlers\<close>

text \<open>
  C9. When the system stored in the settings is not snowboy, \<open>install_wake_word\<close> called
  for snowboy returns with the world as it was: no command and no dialog in the trace, the
  settings and the settings file unchanged.
\<close>

theorem install_snowboy_not_stored:
  "wake_word_system (settings w) \<noteq> Some SNOWBOY \<Longrightarrow> install_wake_word e w SNOWBOY = Some w"
  by (simp add: install_wake_word_def engines_distinct)

theorem install_snowboy_not_stored_witness:
  "wake_word_system (settings example_world) \<noteq> Some SNOWBOY \<and>
   install_wake_word example_env example_world SNOWBOY = Some example_world"
proof -
  have h: "wake_word_system (settings example_world) \<noteq> Some SNOWBOY"
    by (simp add: example_world_def default_settings_def)
  from h install_snowboy_not_stored [OF h, of example_env] show ?thesis by simp
qed

text \<open>
  C6. With no microphone configured, \<open>generate_services\<close> shows the message dialog and
  returns: the settings, the settings file and the written files are what they were.
\<close>

theorem generate_services_no_microphone:
  assumes "microphone_device (settings w) = None"
  shows "\<exists>w'. generate_services e w = Inr w' \<and>
           settings w' = settings w \<and> settings_file w' = settings_file w \<and> files w' = files w \<and>
           trace w' = trace w @ [Dialog [''whiptail'', ''--title'', TITLE, ''--msgbox'',
                                         ''Please configure microphone'', HEIGHT, WIDTH]]"
  using assms by (simp add: generate_services_def msgbox_def whiptail_trace)

theorem generate_services_no_microphone_witness:
  "microphone_device (settings example_world) = None \<and>
   (\<exists>w'. generate_services example_env example_world = Inr w' \<and>
      settings w' = default_settings \<and> settings_file w' = None \<and> files w' = [] \<and>
      trace w' = [Dialog [''whiptail'', ''--title'', TITLE, ''--msgbox'',
                          ''Please configure microphone'', HEIGHT, WIDTH]])"
proof -
  have h: "microphone_device (settings example_world) = None"
    by (simp add: example_world_def default_settings_def)
  from h generate_services_no_microphone [OF h, of example_env] show ?thesis
    by (simp add: example_world_def)
qed

subsection \<open>Decoding the answer of the tool\<close>

lemma menu_decode:
  assumes "items \<noteq> []" and "i < length items"
  shows "menu (\<lambda>argv. (0, str_nat i)) text items args tr
           = Inr (Some (item_value (items ! i)),
                  tr @ [Dialog ([''whiptail'', ''--title'', TITLE, ''--notags''] @ args
                          @ [''--menu'', text, HEIGHT, WIDTH, LIST_HEIGHT]
                          @ snd (menu_items 0 items (Map.empty, [])))])"
  using assms menu_items_at [of i items 0 Map.empty "[]"]
  by (cases "menu_items 0 items (Map.empty, [])") (simp add: menu_def whiptail_def)

lemma radiolist_decode:
  assumes "items \<noteq> []" and "i < length items"
  shows "\<exists>tr'. radiolist (\<lambda>argv. (0, str_nat i)) text items sel args tr
           = Inr (Some (item_value (items ! i)), tr')"
  using assms menu_items_at [of i items 0 Map.empty "[]"]
    radiolist_items_map [of sel 0 items Map.empty "[]" "[]"]
  by (cases "radiolist_items sel 0 items (Map.empty, [])") (simp add: radiolist_def whiptail_def)

lemma checklist_decode:
  assumes "items \<noteq> []" and "\<forall>t\<in>set ts. snd t < length items"
  shows "\<exists>tr'. checklist (\<lambda>argv. (0, checked_text ts)) text items sel args tr
           = Inr (Some (map (\<lambda>t. item_value (items ! snd t)) ts), tr')"
proof -
  obtain m a where ma: "checklist_items sel 0 items (Map.empty, []) = (m, a)"
    by (cases "checklist_items sel 0 items (Map.empty, [])")
  have m: "m = fst (menu_items 0 items (Map.empty, []))"
    using checklist_items_map [of sel 0 items Map.empty "[]" "[]"] ma by simp
  have "map (\<lambda>r. case m r of None \<Rightarrow> r | Some v \<Rightarrow> v) (map (\<lambda>t. str_nat (snd t)) ts)
          = map (\<lambda>t. item_value (items ! snd t)) ts"
    using assms(2) menu_items_at [of _ items 0 Map.empty "[]"] by (simp add: m)
  then show ?thesis
    using assms(1) by (simp add: checklist_def whiptail_def ma shlex_split_checked)
qed

lemma checklist_items_args:
  "snd (checklist_items sel i items (m, a))
     = a @ concat (map (\<lambda>(k, it). [str_nat k, item_label it,
                                     if item_value it \<in> set sel then ''1'' else ''0''])
                    (enumerate i items))"
proof (induction items arbitrary: i m a)
  case Nil
  then show ?case by simp
next
  case (Cons it items)
  then show ?case by (cases it) simp_all
qed

lemma str_nat_digits:
  "str_nat 0 = ''0''" "str_nat 1 = ''1''" "str_nat 2 = ''2''" "str_nat (Suc 0) = ''1''"
  "str_nat (Suc (Suc 0)) = ''2''"
  by code_simp+

text \<open>
  C3. For a non-empty list of items, the arguments built for the tool carry the decimal
  position of each item as its tag, before its label (and its flag in a check list). When
  the tool answers with the tag of a position, \<open>menu\<close> returns the value of the item at
  that position; when it answers with a list of tags separated by blanks (each bare or in
  double quotes), \<open>checklist\<close> returns the values at these positions, in the order of the
  answer. Nothing is asked of the labels or values: they may repeat.
\<close>

theorem choice_codec_roundtrip:
  assumes "items \<noteq> []" and "i < length items" and "\<forall>t\<in>set ts. snd t < length items"
  shows "snd (menu_items 0 items (Map.empty, []))
           = concat (map (\<lambda>(k, it). [str_nat k, item_label it]) (enumerate 0 items)) \<and>
         snd (checklist_items sel 0 items (Map.empty, []))
           = concat (map (\<lambda>(k, it). [str_nat k, item_label it,
                                       if item_value it \<in> set sel then ''1'' else ''0''])
                      (enumerate 0 items)) \<and>
         (\<exists>tr'. menu (\<lambda>argv. (0, str_nat i)) text items args tr
                  = Inr (Some (item_value (items ! i)), tr')) \<and>
         (\<exists>tr'. checklist (\<lambda>argv. (0, checked_text ts)) text items sel args tr
                  = Inr (Some (map (\<lambda>t. item_value (items ! snd t)) ts), tr'))"
  using menu_items_args [of 0 items Map.empty "[]"]
    checklist_items_args [of sel 0 items Map.empty "[]"]
    menu_decode [OF assms(1,2), of "text" args tr]
    checklist_decode [OF assms(1,3), of "text" sel args tr]
  by simp

theorem choice_codec_roundtrip_witness:
  "snd (menu_items 0 [Tup ''a'' ''Same'', Tup ''b'' ''Same'', Str ''b''] (Map.empty, []))
     = [''0'', ''Same'', ''1'', ''Same'', ''2'', ''b''] \<and>
   (\<exists>tr'. menu (\<lambda>argv. (0, ''1'')) ''Pick'' [Tup ''a'' ''Same'', Tup ''b'' ''Same'', Str ''b''] [] []
            = Inr (Some ''b'', tr')) \<and>
   (\<exists>tr'. checklist (\<lambda>argv. (0, [CHR 0x22, CHR ''2'', CHR 0x22, CHR '' '', CHR ''0'']))
              ''Pick'' [Tup ''a'' ''Same'', Tup ''b'' ''Same'', Str ''b''] [] [] []
            = Inr (Some [''b'', ''a''], tr'))"
proof -
  have a: "[Tup ''a'' ''Same'', Tup ''b'' ''Same'', Str ''b''] \<noteq> []" by simp
  have b: "1 < length [Tup ''a'' ''Same'', Tup ''b'' ''Same'', Str ''b'']" by simp
  have c: "\<forall>t\<in>set [(True, 2), (False, 0)]. snd t < length [Tup ''a'' ''Same'', Tup ''b'' ''Same'', Str ''b'']"
    by simp
  have d: "checked_text [(True, 2), (False, 0)] = [CHR 0x22, CHR ''2'', CHR 0x22, CHR '' '', CHR ''0'']"
    by (simp add: tag_text_def str_nat_digits)
  from choice_codec_roundtrip [OF a b c, of "[]" "''Pick''" "[]" "[]", unfolded d] show ?thesis
    by (simp add: str_nat_digits enumerate_eq_zip upt_rec)
qed

text \<open>
  C7. For a non-empty list of items, \<open>checklist\<close> returns \<open>None\<close> exactly when the tool exits
  with a code other than 0, and the empty list when the tool exits with 0 and an empty
  output. Its caller tells the two apart: on \<open>None\<close> the settings and their file stay as
  they are, on the empty list the feedback sounds become empty and the settings are saved.
\<close>

theorem checklist_cancel_or_empty:
  assumes "items \<noteq> []"
  shows "((\<exists>tr'. checklist (\<lambda>argv. (rc, out)) text items sel args tr = Inr (None, tr')) \<longleftrightarrow> rc \<noteq> 0) \<and>
         (\<exists>tr'. checklist (\<lambda>argv. (0, [])) text items sel args tr = Inr (Some [], tr')) \<and>
         (rc \<noteq> 0 \<longrightarrow>
            (\<exists>w'. configure_sound_feedback (e\<lparr>prompt := \<lambda>argv. (rc, out)\<rparr>) w = Inr w' \<and>
                   settings w' = settings w \<and> settings_file w' = settings_file w)) \<and>
         (\<exists>w'. configure_sound_feedback (e\<lparr>prompt := \<lambda>argv. (0, [])\<rparr>) w = Inr w' \<and>
                feedback_sounds (settings w') = [] \<and>
                settings_file w' = Some (asdict (settings w')))"
proof (intro conjI)
  show "(\<exists>tr'. checklist (\<lambda>argv. (rc, out)) text items sel args tr = Inr (None, tr')) \<longleftrightarrow> rc \<noteq> 0"
    using assms
    by (cases "checklist_items sel 0 items (Map.empty, [])")
       (auto simp: checklist_def whiptail_def split: sum.splits)
  show "\<exists>tr'. checklist (\<lambda>argv. (0, [])) text items sel args tr = Inr (Some [], tr')"
    using assms
    by (cases "checklist_items sel 0 items (Map.empty, [])")
       (simp add: checklist_def whiptail_def shlex_split_def)
  show "rc \<noteq> 0 \<longrightarrow>
            (\<exists>w'. configure_sound_feedback (e\<lparr>prompt := \<lambda>argv. (rc, out)\<rparr>) w = Inr w' \<and>
                   settings w' = settings w \<and> settings_file w' = settings_file w)"
    by (simp add: configure_sound_feedback_def checklist_def whiptail_def split: prod.splits)
  show "\<exists>w'. configure_sound_feedback (e\<lparr>prompt := \<lambda>argv. (0, [])\<rparr>) w = Inr w' \<and>
                feedback_sounds (settings w') = [] \<and>
                settings_file w' = Some (asdict (settings w'))"
    by (simp add: configure_sound_feedback_def checklist_def whiptail_def shlex_split_def save_def
        split: prod.splits)
qed


theorem checklist_cancel_or_empty_witness:
  "(\<exists>tr'. checklist (\<lambda>argv. (1, [])) ''Enabled Sounds:''
             [Tup ''awake'' ''On wake-up'', Tup ''done'' ''After voice command''] [''awake''] [] []
            = Inr (None, tr')) \<and>
   (\<exists>tr'. checklist (\<lambda>argv. (0, [])) ''Enabled Sounds:''
             [Tup ''awake'' ''On wake-up'', Tup ''done'' ''After voice command''] [''awake''] [] []
            = Inr (Some [], tr')) \<and>
   (\<exists>w'. configure_sound_feedback (example_env\<lparr>prompt := \<lambda>argv. (1, [])\<rparr>)
            (example_world\<lparr>settings := example_settings\<rparr>) = Inr w' \<and>
          settings w' = example_settings \<and> settings_file w' = None) \<and>
   (\<exists>w'. configure_sound_feedback (example_env\<lparr>prompt := \<lambda>argv. (0, [])\<rparr>)
            (example_world\<lparr>settings := example_settings\<rparr>) = Inr w' \<and>
          feedback_sounds (settings w') = [] \<and> settings_file w' = Some (asdict (settings w')))"
proof -
  have a: "[Tup ''awake'' ''On wake-up'', Tup ''done'' ''After voice command''] \<noteq> []" by simp
  from checklist_cancel_or_empty [OF a, of 1 "[]" "''Enabled Sounds:''" "[''awake'']" "[]" "[]"
      example_env "example_world\<lparr>settings := example_settings\<rparr>"]
  show ?thesis by (simp add: example_world_def)
qed

subsection \<open>Selecting a wake word\<close>

lemma map_of_update_other: "k' \<noteq> k \<Longrightarrow> map_of (AList.update k v al) k' = map_of al k'"
  by (simp add: update_conv')

lemma choose_wake_word_other:
  "choose_wake_word e items shown key w = Inr w' \<Longrightarrow> k \<noteq> key \<Longrightarrow>
     map_of (wake_word (settings w')) k = map_of (wake_word (settings w)) k"
  by (auto simp: choose_wake_word_def save_def map_of_update_other split: sum.splits option.splits)

lemma radiolist_returns:
  "items \<noteq> [] \<Longrightarrow> \<exists>result tr'. radiolist tool txt items sel args tr = Inr (result, tr')"
  by (simp add: radiolist_def split: prod.splits)

lemma choose_wake_word_result:
  assumes "items \<noteq> []"
  shows "\<exists>result tr w'.
           radiolist (prompt e) ''Wake Word:'' items (map_of (wake_word (settings w)) shown) [] (trace w)
             = Inr (result, tr) \<and>
           choose_wake_word e items shown key w = Inr w' \<and> trace w' = tr \<and> files w' = files w \<and>
           (case result of
              None \<Rightarrow> settings w' = settings w \<and> settings_file w' = settings_file w
            | Some chosen \<Rightarrow>
                settings w' = (settings w)\<lparr>wake_word := AList.update key chosen (wake_word (settings w))\<rparr> \<and>
                settings_file w' = Some (asdict (settings w')))"
proof -
  obtain result tr where r:
    "radiolist (prompt e) ''Wake Word:'' items (map_of (wake_word (settings w)) shown) [] (trace w)
       = Inr (result, tr)"
    using radiolist_returns [OF assms] by blast
  show ?thesis
    by (cases result) (simp_all add: r choose_wake_word_def save_def)
qed

text \<open>
  C10. With porcupine1 selected, \<open>select_wake_word\<close> shows the radio list of the
  openWakeWord wake words, preselecting the word stored for openWakeWord; a selection is
  stored under the openWakeWord key and saved, a cancelled dialog leaves the settings and
  their file as they are. Whatever system is selected, the entry of the porcupine1 key is
  after \<open>select_wake_word\<close> what it was before.
\<close>

theorem select_wake_word_porcupine1:
  "(wake_word_system (settings w) = Some PORCUPINE1 \<longrightarrow>
      (\<exists>result tr w'.
          radiolist (prompt e) ''Wake Word:'' openwakeword_items
              (map_of (wake_word (settings w)) OPENWAKEWORD) [] (trace w) = Inr (result, tr) \<and>
          select_wake_word e w = Inr w' \<and> trace w' = tr \<and> files w' = files w \<and>
          (case result of
             None \<Rightarrow> settings w' = settings w \<and> settings_file w' = settings_file w
           | Some chosen \<Rightarrow>
               settings w' = (settings w)
                  \<lparr>wake_word := AList.update OPENWAKEWORD chosen (wake_word (settings w))\<rparr> \<and>
               settings_file w' = Some (asdict (settings w'))))) \<and>
   (\<forall>w'. select_wake_word e w = Inr w' \<longrightarrow>
      map_of (wake_word (settings w')) PORCUPINE1 = map_of (wake_word (settings w)) PORCUPINE1)"
proof (intro conjI impI allI)
  assume p: "wake_word_system (settings w) = Some PORCUPINE1"
  have "openwakeword_items \<noteq> []" by (simp add: openwakeword_items_def)
  from choose_wake_word_result [OF this, of e w OPENWAKEWORD OPENWAKEWORD] p
  show "\<exists>result tr w'.
          radiolist (prompt e) ''Wake Word:'' openwakeword_items
              (map_of (wake_word (settings w)) OPENWAKEWORD) [] (trace w) = Inr (result, tr) \<and>
          select_wake_word e w = Inr w' \<and> trace w' = tr \<and> files w' = files w \<and>
          (case result of
             None \<Rightarrow> settings w' = settings w \<and> settings_file w' = settings_file w
           | Some chosen \<Rightarrow>
               settings w' = (settings w)
                  \<lparr>wake_word := AList.update OPENWAKEWORD chosen (wake_word (settings w))\<rparr> \<and>
               settings_file w' = Some (asdict (settings w')))"
    by (simp add: select_wake_word_def engines_distinct)
next
  fix w'
  assume "select_wake_word e w = Inr w'"
  then show "map_of (wake_word (settings w')) PORCUPINE1 = map_of (wake_word (settings w)) PORCUPINE1"
    using choose_wake_word_other [of e _ _ OPENWAKEWORD w w' PORCUPINE1]
      choose_wake_word_other [of e _ _ SNOWBOY w w' PORCUPINE1]
    by (auto simp: select_wake_word_def engines_distinct split: if_splits)
qed

theorem select_wake_word_porcupine1_witness:
  "wake_word_system (settings (example_world\<lparr>settings := example_settings\<rparr>)) = Some PORCUPINE1 \<and>
   (\<exists>w'. select_wake_word (example_env\<lparr>prompt := \<lambda>argv. (0, ''1'')\<rparr>)
             (example_world\<lparr>settings := example_settings\<rparr>) = Inr w' \<and>
          map_of (wake_word (settings w')) OPENWAKEWORD = Some ''hey_jarvis'' \<and>
          map_of (wake_word (settings w')) PORCUPINE1 = None)"
proof -
  let ?w = "example_world\<lparr>settings := example_settings\<rparr>"
  let ?e = "example_env\<lparr>prompt := \<lambda>argv. (0, ''1'')\<rparr>"
  have p: "wake_word_system (settings ?w) = Some PORCUPINE1"
    by (simp add: example_settings_def)
  have "openwakeword_items \<noteq> []" "1 < length openwakeword_items"
    by (simp_all add: openwakeword_items_def)
  from radiolist_decode [OF this, of "''Wake Word:''" "map_of (wake_word (settings ?w)) OPENWAKEWORD" "[]" "trace ?w"]
  obtain tr' where r: "radiolist (prompt ?e) ''Wake Word:'' openwakeword_items
      (map_of (wake_word (settings ?w)) OPENWAKEWORD) [] (trace ?w) = Inr (Some ''hey_jarvis'', tr')"
    by (auto simp: str_nat_digits openwakeword_items_def)
  from select_wake_word_porcupine1 [of ?w ?e] p r show ?thesis
    by (auto simp: example_settings_def update_conv' engines_distinct)
qed

subsection \<open>Waiting for a unit of work\<close>

lemma await_done:
  "is_done (k + n) \<Longrightarrow> \<exists>p gs. await is_done k percent tr = Some (p, tr @ map Gauge gs)"
proof (induction n arbitrary: k percent tr)
  case 0
  then have "await is_done k percent tr = Some (percent, tr @ map Gauge [])"
    by (simp add: await.simps)
  then show ?case by blast
next
  case (Suc n)
  show ?case
  proof (cases "is_done k")
    case True
    then have "await is_done k percent tr = Some (percent, tr @ map Gauge [])"
      by (simp add: await.simps)
    then show ?thesis by blast
  next
    case False
    let ?p = "if percent + 100 div 20 > 100 then 0 else percent + 100 div 20"
    from Suc.prems have "is_done (Suc k + n)" by simp
    from Suc.IH [OF this, of ?p "tr @ [Gauge ?p]"]
    obtain p gs where "await is_done (Suc k) ?p (tr @ [Gauge ?p]) = Some (p, (tr @ [Gauge ?p]) @ map Gauge gs)"
      by blast
    then have "await is_done k percent tr = Some (p, tr @ map Gauge (?p # gs))"
      using False by (subst await.simps) (auto simp: Let_def split: if_splits)
    then show ?thesis by blast
  qed
qed

lemma await_trace:
  assumes "await is_done k percent tr = Some r"
  shows "\<exists>gs. snd r = tr @ map Gauge gs"
proof (rule await.raw_induct [OF _ assms], goal_cases)
  case (1 await' is_done k percent tr r)
  show ?case
  proof (cases "is_done k")
    case True
    with 1(2) have "snd r = tr @ map Gauge []" by auto
    then show ?thesis by blast
  next
    case False
    let ?p = "if percent + 100 div 20 > 100 then 0 else percent + 100 div 20"
    from False 1(2) have "await' is_done (Suc k) ?p (tr @ [Gauge ?p]) = Some r"
      by (auto simp: Let_def split: if_splits)
    from 1(1) [OF this] obtain gs where "snd r = (tr @ [Gauge ?p]) @ map Gauge gs" by blast
    then have "snd r = tr @ map Gauge (?p # gs)" by simp
    then show ?thesis by blast
  qed
qed

subsection \<open>The command runner\<close>

lemma submitted_append: "submitted (a @ b) = submitted a @ submitted b"
  by (induction a rule: submitted.induct) simp_all

lemma spawned_append: "spawned (a @ b) = spawned a @ spawned b"
  by (induction a rule: spawned.induct) simp_all

lemma inputs_append: "inputs (a @ b) = inputs a @ inputs b"
  by (induction a rule: inputs.induct) simp_all

lemma gauges_silent:
  "submitted (map Gauge gs) = []" "spawned (map Gauge gs) = []" "inputs (map Gauge gs) = []"
  by (induction gs) simp_all

lemma run_command_result: "fst (run_command (process j) command pw) = succeeds j command"
  by (simp add: run_command_def succeeds_def Let_def split: proc.splits)

lemma run_command_events:
  "submitted (snd (run_command p command pw)) = []"
  "spawned (snd (run_command p command pw)) = (if command = [] then [] else [command])"
  by (simp_all add: run_command_def Let_def split: proc.splits)

lemma run_command_inputs:
  "inputs (snd (run_command p command pw))
     = (case p of
          SpawnError \<Rightarrow> []
        | Exited returncode stderr \<Rightarrow>
            if command = [] then [] else [(command, if hd command = ''sudo'' then pw else None)])"
  by (auto simp: run_command_def Let_def split: proc.splits)

lemma run_commands_step:
  assumes "done_at (jobs n) k"
  shows "\<exists>p gs. run_commands jobs n (command # commands) pw percent tr
           = (if succeeds (jobs n) command
              then run_commands jobs (Suc n) commands pw p
                     (tr @ Submit command # snd (run_command (process (jobs n)) command pw) @ map Gauge gs)
              else Some (False, tr @ Submit command # snd (run_command (process (jobs n)) command pw) @ map Gauge gs))"
proof -
  obtain result events where rc: "run_command (process (jobs n)) command pw = (result, events)"
    by (cases "run_command (process (jobs n)) command pw")
  have result: "result = succeeds (jobs n) command"
    using run_command_result [of "jobs n" command pw] rc by simp
  from assms await_done [of "done_at (jobs n)" 0 k percent "tr @ Submit command # events"]
  obtain p gs where "await (done_at (jobs n)) 0 percent (tr @ Submit command # events)
      = Some (p, (tr @ Submit command # events) @ map Gauge gs)" by auto
  then have "run_commands jobs n (command # commands) pw percent tr
           = (if succeeds (jobs n) command
              then run_commands jobs (Suc n) commands pw p
                     (tr @ Submit command # snd (run_command (process (jobs n)) command pw) @ map Gauge gs)
              else Some (False, tr @ Submit command # snd (run_command (process (jobs n)) command pw) @ map Gauge gs))"
    by (simp add: rc result)
  then show ?thesis by blast
qed

lemma run_commands_all:
  assumes "\<forall>i<length commands. succeeds (jobs (n + i)) (commands ! i) \<and> (\<exists>k. done_at (jobs (n + i)) k)"
  shows "\<exists>tr'. run_commands jobs n commands pw percent tr = Some (True, tr') \<and>
           submitted tr' = submitted tr @ commands \<and> spawned tr' = spawned tr @ commands"
  using assms
proof (induction commands arbitrary: n percent tr)
  case Nil
  then show ?case by simp
next
  case (Cons command commands)
  from Cons.prems have ok: "succeeds (jobs n) command" and "\<exists>k. done_at (jobs n) k"
    by force+
  then obtain k where k: "done_at (jobs n) k" by blast
  from run_commands_step [of jobs n k command commands pw percent tr] k ok
  obtain p gs where step: "run_commands jobs n (command # commands) pw percent tr
      = run_commands jobs (Suc n) commands pw p
          (tr @ Submit command # snd (run_command (process (jobs n)) command pw) @ map Gauge gs)"
    by auto
  have "\<forall>i<length commands. succeeds (jobs (Suc n + i)) (commands ! i) \<and> (\<exists>k. done_at (jobs (Suc n + i)) k)"
    using Cons.prems by force
  from Cons.IH [OF this, of p "tr @ Submit command # snd (run_command (process (jobs n)) command pw) @ map Gauge gs"]
  show ?case
    using ok by (auto simp: step submitted_append spawned_append gauges_silent run_command_events succeeds_def
        simp del: run_commands.simps)
qed

lemma run_commands_first_failure:
  assumes "f < length commands" and "\<not> succeeds (jobs (n + f)) (commands ! f)"
    and "\<forall>i<f. succeeds (jobs (n + i)) (commands ! i)"
    and "\<forall>i\<le>f. \<exists>k. done_at (jobs (n + i)) k"
  shows "\<exists>tr'. run_commands jobs n commands pw percent tr = Some (False, tr') \<and>
           submitted tr' = submitted tr @ take (Suc f) commands \<and>
           spawned tr' = spawned tr @ filter (\<lambda>c. c \<noteq> []) (take (Suc f) commands)"
  using assms
proof (induction commands arbitrary: n f percent tr)
  case Nil
  then show ?case by simp
next
  case (Cons command commands)
  from Cons.prems(4) obtain k where k: "done_at (jobs n) k" by force
  show ?case
  proof (cases f)
    case 0
    with Cons.prems(2) have bad: "\<not> succeeds (jobs n) command" by simp
    from run_commands_step [of jobs n k command commands pw percent tr] k bad
    show ?thesis
      by (auto simp: 0 submitted_append spawned_append gauges_silent run_command_events
          simp del: run_commands.simps)
  next
    case (Suc f')
    from Cons.prems(3) have ok: "succeeds (jobs n) command" by (force simp: Suc)
    from run_commands_step [of jobs n k command commands pw percent tr] k ok
    obtain p gs where step: "run_commands jobs n (command # commands) pw percent tr
        = run_commands jobs (Suc n) commands pw p
            (tr @ Submit command # snd (run_command (process (jobs n)) command pw) @ map Gauge gs)"
      by auto
    have a: "f' < length commands" using Cons.prems(1) Suc by simp
    have b: "\<not> succeeds (jobs (Suc n + f')) (commands ! f')" using Cons.prems(2) Suc by simp
    have c: "\<forall>i<f'. succeeds (jobs (Suc n + i)) (commands ! i)"
      using Cons.prems(3) Suc by force
    have d: "\<forall>i\<le>f'. \<exists>k. done_at (jobs (Suc n + i)) k"
      using Cons.prems(4) Suc by force
    from Cons.IH [OF a b c d, of p "tr @ Submit command # snd (run_command (process (jobs n)) command pw) @ map Gauge gs"]
    show ?thesis
      using ok by (auto simp: step Suc submitted_append spawned_append gauges_silent run_command_events succeeds_def
          simp del: run_commands.simps)
  qed
qed

lemma run_with_gauge_all:
  assumes "\<forall>i<length commands. succeeds (jobs i) (commands ! i) \<and> (\<exists>k. done_at (jobs i) k)"
  shows "\<exists>tr'. run_with_gauge jobs txt commands pw tr = Some (True, tr')"
proof -
  from assms have "\<forall>i<length commands. succeeds (jobs (0 + i)) (commands ! i) \<and> (\<exists>k. done_at (jobs (0 + i)) k)"
    by simp
  from run_commands_all [OF this, of pw 0 "tr @ [Dialog [''whiptail'', ''--title'', TITLE, ''--gauge'', txt, HEIGHT, WIDTH, ''0'']]"]
  show ?thesis by (auto simp: run_with_gauge_def)
qed

lemma await_polls:
  assumes "await is_done k percent tr = Some r"
  shows "\<exists>gs. snd r = tr @ map Gauge gs \<and> is_done (k + length gs) \<and> (\<forall>i<length gs. \<not> is_done (k + i))"
proof (rule await.raw_induct [OF _ assms, where P = "\<lambda>is_done k percent tr r.
    \<exists>gs. snd r = tr @ map Gauge gs \<and> is_done (k + length gs) \<and> (\<forall>i<length gs. \<not> is_done (k + i))"],
    goal_cases)
  case (1 await' is_done k percent tr r)
  show ?case
  proof (cases "is_done k")
    case True
    with 1(2) have "snd r = tr @ map Gauge [] \<and> is_done (k + length ([] :: nat list)) \<and>
      (\<forall>i<length ([] :: nat list). \<not> is_done (k + i))" by auto
    then show ?thesis by blast
  next
    case False
    let ?p = "if percent + 100 div 20 > 100 then 0 else percent + 100 div 20"
    from False 1(2) have "await' is_done (Suc k) ?p (tr @ [Gauge ?p]) = Some r"
      by (auto simp: Let_def split: if_splits)
    from 1(1) [OF this] obtain gs where gs: "snd r = (tr @ [Gauge ?p]) @ map Gauge gs"
      "is_done (Suc k + length gs)" "\<forall>i<length gs. \<not> is_done (Suc k + i)" by blast
    have "\<forall>i<length (?p # gs). \<not> is_done (k + i)"
    proof (intro allI impI)
      fix i assume "i < length (?p # gs)"
      then show "\<not> is_done (k + i)" using False gs(3) by (cases i) auto
    qed
    moreover have "snd r = tr @ map Gauge (?p # gs)" using gs(1) by simp
    moreover have "is_done (k + length (?p # gs))" using gs(2) by simp
    ultimately show ?thesis by blast
  qed
qed

lemma await_never: "\<forall>k. \<not> is_done k \<Longrightarrow> await is_done k percent tr = None"
  using await_polls [of is_done k percent tr] by (cases "await is_done k percent tr") auto

lemma one_at_a_time_gauges:
  "one_at_a_time jobs n (Some k) (map Gauge gs @ rest)
     = ((\<forall>i<length gs. \<not> done_at (jobs n) (k + i)) \<and> one_at_a_time jobs n (Some (k + length gs)) rest)"
proof (induction gs arbitrary: k)
  case Nil
  then show ?case by simp
next
  case (Cons g gs)
  have "(\<forall>i<Suc (length gs). \<not> done_at (jobs n) (k + i))
          \<longleftrightarrow> \<not> done_at (jobs n) k \<and> (\<forall>i<length gs. \<not> done_at (jobs n) (Suc k + i))"
    by (auto simp: less_Suc_eq_0_disj)
  with Cons.IH [of "Suc k"] show ?case by simp
qed

lemma one_at_a_time_events:
  "one_at_a_time jobs n cur (snd (run_command p command pw) @ rest) = one_at_a_time jobs n cur rest"
  by (simp add: run_command_def Let_def split: proc.splits)

lemma run_commands_one_at_a_time:
  "run_commands jobs n commands pw percent tr = Some (r, tr') \<Longrightarrow>
     \<exists>new. tr' = tr @ new \<and> one_at_a_time jobs n None new \<and>
           (\<forall>m k. Suc m = n \<and> done_at (jobs m) k \<longrightarrow> one_at_a_time jobs m (Some k) new)"
proof (induction commands arbitrary: n percent tr)
  case Nil
  then have "tr' = tr @ []" by simp
  then show ?case by (intro exI [of _ "[]"]) simp
next
  case (Cons command commands)
  obtain result events where rc: "run_command (process (jobs n)) command pw = (result, events)"
    by (cases "run_command (process (jobs n)) command pw")
  have events: "events = snd (run_command (process (jobs n)) command pw)" by (simp add: rc)
  from Cons.prems obtain p tr1 where
    aw: "await (done_at (jobs n)) 0 percent (tr @ Submit command # events) = Some (p, tr1)"
    by (auto simp: rc split: option.splits)
  from await_polls [OF aw] obtain gs where tr1: "tr1 = (tr @ Submit command # events) @ map Gauge gs"
    and fin: "done_at (jobs n) (length gs)" and wait: "\<forall>i<length gs. \<not> done_at (jobs n) i"
    by auto
  have "\<exists>new2. tr' = tr1 @ new2 \<and> one_at_a_time jobs n (Some (length gs)) new2"
  proof (cases result)
    case False
    with Cons.prems aw have "tr' = tr1 @ []" by (simp add: rc)
    then show ?thesis using fin by (intro exI [of _ "[]"]) simp
  next
    case True
    with Cons.prems aw have "run_commands jobs (Suc n) commands pw p tr1 = Some (r, tr')"
      by (simp add: rc)
    from Cons.IH [OF this] fin show ?thesis by blast
  qed
  then obtain new2 where new2: "tr' = tr1 @ new2" "one_at_a_time jobs n (Some (length gs)) new2"
    by blast
  let ?new = "Submit command # events @ map Gauge gs @ new2"
  have run: "one_at_a_time jobs n (Some 0) (events @ map Gauge gs @ new2)"
    using one_at_a_time_gauges [of jobs n 0 gs new2] wait new2(2)
    by (simp add: events one_at_a_time_events)
  have "tr' = tr @ ?new" by (simp add: new2(1) tr1)
  moreover have "one_at_a_time jobs n None ?new" using run by simp
  moreover have "\<forall>m k. Suc m = n \<and> done_at (jobs m) k \<longrightarrow> one_at_a_time jobs m (Some k) ?new"
    using run by auto
  ultimately show ?case by blast
qed

lemma run_with_gauge_one_at_a_time:
  assumes "run_with_gauge jobs txt commands pw tr = Some (r, tr')"
  shows "\<exists>new. tr' = tr @ new \<and> one_at_a_time jobs 0 None new"
proof -
  let ?d = "Dialog [''whiptail'', ''--title'', TITLE, ''--gauge'', txt, HEIGHT, WIDTH, ''0'']"
  from assms obtain tr1 where run: "run_commands jobs 0 commands pw 0 (tr @ [?d]) = Some (r, tr1)"
    and tr': "tr' = tr1 \<or> tr' = tr1 @ [GaugeClose]"
    by (auto simp: run_with_gauge_def split: option.splits if_splits)
  from run_commands_one_at_a_time [OF run] obtain new where
    new: "tr1 = (tr @ [?d]) @ new" "one_at_a_time jobs 0 None new" by blast
  have close: "one_at_a_time jobs n cur (xs @ [GaugeClose]) = one_at_a_time jobs n cur xs" for n cur xs
    by (induction jobs n cur xs rule: one_at_a_time.induct) simp_all
  from tr' show ?thesis
  proof
    assume "tr' = tr1"
    then have "tr' = tr @ (?d # new)" using new(1) by simp
    moreover have "one_at_a_time jobs 0 None (?d # new)" using new(2) by simp
    ultimately show ?thesis by blast
  next
    assume "tr' = tr1 @ [GaugeClose]"
    then have "tr' = tr @ (?d # new @ [GaugeClose])" using new(1) by simp
    moreover have "one_at_a_time jobs 0 None (?d # new @ [GaugeClose])" using new(2) close by simp
    ultimately show ?thesis by blast
  qed
qed

lemma run_commands_never_ends:
  assumes "i < length commands"
    and "\<forall>j<i. succeeds (jobs (n + j)) (commands ! j) \<and> (\<exists>k. done_at (jobs (n + j)) k)"
    and "\<forall>k. \<not> done_at (jobs (n + i)) k"
  shows "run_commands jobs n commands pw percent tr = None"
  using assms
proof (induction commands arbitrary: n i percent tr)
  case Nil
  then show ?case by simp
next
  case (Cons command commands)
  show ?case
  proof (cases i)
    case 0
    with Cons.prems(3) have "\<forall>k. \<not> done_at (jobs n) k" by simp
    then show ?thesis by (simp add: await_never split: prod.splits)
  next
    case (Suc i')
    from Cons.prems(2) have ok: "succeeds (jobs n) command" and "\<exists>k. done_at (jobs n) k"
      by (force simp: Suc)+
    then obtain k where k: "done_at (jobs n) k" by blast
    from run_commands_step [of jobs n k command commands pw percent tr] k ok
    obtain p gs where step: "run_commands jobs n (command # commands) pw percent tr
        = run_commands jobs (Suc n) commands pw p
            (tr @ Submit command # snd (run_command (process (jobs n)) command pw) @ map Gauge gs)"
      by auto
    have a: "i' < length commands" using Cons.prems(1) Suc by simp
    have b: "\<forall>j<i'. succeeds (jobs (Suc n + j)) (commands ! j) \<and> (\<exists>k. done_at (jobs (Suc n + j)) k)"
      using Cons.prems(2) Suc by force
    have c: "\<forall>k. \<not> done_at (jobs (Suc n + i')) k" using Cons.prems(3) Suc by simp
    from Cons.IH [OF a b c] show ?thesis by (simp only: step)
  qed
qed

text \<open>
  C1. \<open>run_with_gauge\<close> hands the commands to the executor in the order of the list, one at
  a time. When every command succeeds (it is spawned and returns 0) and ends, the result
  is \<open>True\<close> and the commands handed over are those of the list, in order. When the command
  at position \<open>f\<close> is the first that does not succeed (it is empty, cannot be spawned, or
  returns another code), the result is \<open>False\<close> and the commands handed over are the first
  \<open>f + 1\<close> of the list: no command after the failing one is started. In every run that
  returns, a command is handed over, and the run ends, only after the future of the
  command before has answered that it is done, and a value goes to the gauge only after it
  has answered that it is not. While a command does not end, the run does not return and
  no later command is started. The error output of a command is taken to be text that can
  be decoded; a command whose output cannot be decoded, for which \<open>communicate\<close> raises, is
  not among the processes of the model.
\<close>

theorem run_with_gauge_sequence:
  "((\<forall>i<length commands. succeeds (jobs i) (commands ! i) \<and> (\<exists>k. done_at (jobs i) k)) \<longrightarrow>
      (\<exists>tr'. run_with_gauge jobs text commands pw tr = Some (True, tr') \<and>
             submitted tr' = submitted tr @ commands \<and> spawned tr' = spawned tr @ commands)) \<and>
   (f < length commands \<and> \<not> succeeds (jobs f) (commands ! f) \<and>
    (\<forall>i<f. succeeds (jobs i) (commands ! i)) \<and> (\<forall>i\<le>f. \<exists>k. done_at (jobs i) k) \<longrightarrow>
      (\<exists>tr'. run_with_gauge jobs text commands pw tr = Some (False, tr') \<and>
             submitted tr' = submitted tr @ take (Suc f) commands \<and>
             spawned tr' = spawned tr @ filter (\<lambda>c. c \<noteq> []) (take (Suc f) commands))) \<and>
   (\<forall>r tr'. run_with_gauge jobs text commands pw tr = Some (r, tr') \<longrightarrow>
      (\<exists>new. tr' = tr @ new \<and> one_at_a_time jobs 0 None new)) \<and>
   (g < length commands \<and>
    (\<forall>i<g. succeeds (jobs i) (commands ! i) \<and> (\<exists>k. done_at (jobs i) k)) \<and>
    (\<forall>k. \<not> done_at (jobs g) k) \<longrightarrow>
      run_with_gauge jobs text commands pw tr = None)"
proof -
  let ?tr = "tr @ [Dialog [''whiptail'', ''--title'', TITLE, ''--gauge'', text, HEIGHT, WIDTH, ''0'']]"
  have all: "\<exists>tr'. run_with_gauge jobs text commands pw tr = Some (True, tr') \<and>
             submitted tr' = submitted tr @ commands \<and> spawned tr' = spawned tr @ commands"
    if "\<forall>i<length commands. succeeds (jobs i) (commands ! i) \<and> (\<exists>k. done_at (jobs i) k)"
  proof -
    from that
    have "\<forall>i<length commands. succeeds (jobs (0 + i)) (commands ! i) \<and> (\<exists>k. done_at (jobs (0 + i)) k)"
      by simp
    from run_commands_all [OF this, of pw 0 ?tr] show ?thesis
      by (auto simp: run_with_gauge_def submitted_append spawned_append)
  qed
  have first: "\<exists>tr'. run_with_gauge jobs text commands pw tr = Some (False, tr') \<and>
             submitted tr' = submitted tr @ take (Suc f) commands \<and>
             spawned tr' = spawned tr @ filter (\<lambda>c. c \<noteq> []) (take (Suc f) commands)"
    if "f < length commands \<and> \<not> succeeds (jobs f) (commands ! f) \<and>
        (\<forall>i<f. succeeds (jobs i) (commands ! i)) \<and> (\<forall>i\<le>f. \<exists>k. done_at (jobs i) k)"
  proof -
    from that have "f < length commands" "\<not> succeeds (jobs (0 + f)) (commands ! f)"
      "\<forall>i<f. succeeds (jobs (0 + i)) (commands ! i)" "\<forall>i\<le>f. \<exists>k. done_at (jobs (0 + i)) k"
      by simp_all
    from run_commands_first_failure [OF this, of pw 0 ?tr] show ?thesis
      by (auto simp: run_with_gauge_def submitted_append spawned_append)
  qed
  have never: "run_with_gauge jobs text commands pw tr = None"
    if "g < length commands \<and>
        (\<forall>i<g. succeeds (jobs i) (commands ! i) \<and> (\<exists>k. done_at (jobs i) k)) \<and>
        (\<forall>k. \<not> done_at (jobs g) k)"
  proof -
    from that have "g < length commands"
      "\<forall>j<g. succeeds (jobs (0 + j)) (commands ! j) \<and> (\<exists>k. done_at (jobs (0 + j)) k)"
      "\<forall>k. \<not> done_at (jobs (0 + g)) k"
      by simp_all
    from run_commands_never_ends [OF this, of pw 0 ?tr] show ?thesis
      by (simp add: run_with_gauge_def)
  qed
  from all first never run_with_gauge_one_at_a_time [of jobs "text" commands pw tr]
  show ?thesis by blast
qed

theorem run_with_gauge_sequence_witness:
  "(\<exists>tr'. run_with_gauge (executor example_env) ''Installing snowboy'' example_commands None [] = Some (True, tr') \<and>
          submitted tr' = example_commands \<and> spawned tr' = example_commands \<and>
          one_at_a_time (executor example_env) 0 None tr') \<and>
   (\<exists>tr'. run_with_gauge second_fails ''Installing snowboy'' example_commands None [] = Some (False, tr') \<and>
          submitted tr' = take 2 example_commands \<and> spawned tr' = take 2 example_commands \<and>
          one_at_a_time second_fails 0 None tr') \<and>
   run_with_gauge never_ends ''Installing snowboy'' example_commands None [] = None"
proof -
  have a: "\<forall>i<length example_commands.
             succeeds (executor example_env i) (example_commands ! i) \<and> (\<exists>k. done_at (executor example_env i) k)"
    by (auto simp: less_Suc_eq example_env_def example_commands_def succeeds_def)
  have b: "1 < length example_commands \<and> \<not> succeeds (second_fails 1) (example_commands ! 1) \<and>
    (\<forall>i<1. succeeds (second_fails i) (example_commands ! i)) \<and> (\<forall>i\<le>1. \<exists>k. done_at (second_fails i) k)"
    by (auto simp: less_Suc_eq second_fails_def example_commands_def succeeds_def)
  have c: "0 < length example_commands \<and>
    (\<forall>i<0. succeeds (never_ends i) (example_commands ! i) \<and> (\<exists>k. done_at (never_ends i) k)) \<and>
    (\<forall>k. \<not> done_at (never_ends 0) k)"
    by (simp add: never_ends_def example_commands_def)
  note t1 = run_with_gauge_sequence [of example_commands "executor example_env"
      "''Installing snowboy''" None "[]" 0 0]
  note t2 = run_with_gauge_sequence [of example_commands second_fails
      "''Installing snowboy''" None "[]" 1 0]
  note t3 = run_with_gauge_sequence [of example_commands never_ends
      "''Installing snowboy''" None "[]" 0 0]
  from a t1 obtain tr1 where r1:
    "run_with_gauge (executor example_env) ''Installing snowboy'' example_commands None [] = Some (True, tr1)"
    "submitted tr1 = example_commands" "spawned tr1 = example_commands"
    by auto
  from r1(1) t1 have o1: "one_at_a_time (executor example_env) 0 None tr1" by auto
  from b t2 obtain tr2 where r2:
    "run_with_gauge second_fails ''Installing snowboy'' example_commands None [] = Some (False, tr2)"
    "submitted tr2 = take 2 example_commands" "spawned tr2 = take 2 example_commands"
    by (auto simp: example_commands_def)
  from r2(1) t2 have o2: "one_at_a_time second_fails 0 None tr2" by auto
  from c t3 have r3: "run_with_gauge never_ends ''Installing snowboy'' example_commands None [] = None"
    by blast
  from r1 o1 r2 o2 r3 show ?thesis by blast
qed

lemma run_commands_inputs:
  "run_commands jobs n commands pw percent tr = Some (r, tr') \<Longrightarrow>
     \<exists>cs. inputs tr' = inputs tr @ map (\<lambda>c. (c, if hd c = ''sudo'' then pw else None)) cs \<and>
          set cs \<subseteq> set commands - {[]}"
proof (induction commands arbitrary: n percent tr)
  case Nil
  then have "inputs tr' = inputs tr @ map (\<lambda>c. (c, if hd c = ''sudo'' then pw else None)) []"
    by simp
  then show ?case by (intro exI [of _ "[]"]) simp
next
  case (Cons command commands)
  obtain result events where rc: "run_command (process (jobs n)) command pw = (result, events)"
    by (cases "run_command (process (jobs n)) command pw")
  from Cons.prems obtain p tr1 where
    aw: "await (done_at (jobs n)) 0 percent (tr @ Submit command # events) = Some (p, tr1)"
    by (auto simp: rc split: option.splits)
  from await_trace [OF aw] obtain gs where tr1: "tr1 = (tr @ Submit command # events) @ map Gauge gs"
    by auto
  have ev: "\<exists>cs. inputs events = map (\<lambda>c. (c, if hd c = ''sudo'' then pw else None)) cs \<and>
              set cs \<subseteq> {command} - {[]}"
  proof (cases "inputs events = []")
    case True
    then have "inputs events = map (\<lambda>c. (c, if hd c = ''sudo'' then pw else None)) []" by simp
    then show ?thesis by (intro exI [of _ "[]"]) simp
  next
    case False
    then have "inputs events = map (\<lambda>c. (c, if hd c = ''sudo'' then pw else None)) [command] \<and> command \<noteq> []"
      using run_command_inputs [of "process (jobs n)" command pw]
      by (auto simp: rc split: proc.splits if_splits)
    then show ?thesis by (intro exI [of _ "[command]"]) simp
  qed
  then obtain cs1 where cs1: "inputs events = map (\<lambda>c. (c, if hd c = ''sudo'' then pw else None)) cs1"
    "set cs1 \<subseteq> {command} - {[]}" by blast
  have i1: "inputs tr1 = inputs tr @ map (\<lambda>c. (c, if hd c = ''sudo'' then pw else None)) cs1"
    by (simp add: tr1 inputs_append gauges_silent cs1)
  show ?case
  proof (cases result)
    case False
    with Cons.prems aw have "tr' = tr1" by (simp add: rc)
    with i1 cs1(2) show ?thesis by (intro exI [of _ cs1]) auto
  next
    case True
    with Cons.prems aw have "run_commands jobs (Suc n) commands pw p tr1 = Some (r, tr')"
      by (simp add: rc)
    from Cons.IH [OF this] obtain cs2 where
      "inputs tr' = inputs tr1 @ map (\<lambda>c. (c, if hd c = ''sudo'' then pw else None)) cs2"
      "set cs2 \<subseteq> set commands - {[]}" by blast
    with i1 cs1(2) show ?thesis by (intro exI [of _ "cs1 @ cs2"]) auto
  qed
qed

lemma written_input:
  assumes "\<exists>proc_input. xs = [(c, proc_input)] \<and>
             (\<forall>secret. proc_input = Some secret \<longleftrightarrow> A \<and> pw = Some secret)"
  shows "xs = [(c, if A then pw else None)]"
proof -
  from assms obtain x where xs: "xs = [(c, x)]"
    and x: "\<And>secret. x = Some secret \<longleftrightarrow> A \<and> pw = Some secret" by blast
  have "x = (if A then pw else None)"
  proof (cases x)
    case None
    then show ?thesis using x by (cases pw) auto
  next
    case (Some s)
    with x [of s] show ?thesis by simp
  qed
  with xs show ?thesis by simp
qed

text \<open>
  C8. A command that is spawned gets one input before its input channel is closed: the
  secret exactly when its first argument is \<open>sudo\<close> and a secret was supplied, and nothing
  otherwise. A command that cannot be spawned gets no input. In a whole run of
  \<open>run_with_gauge\<close>, every input written is the one this rule gives for its command.
\<close>

theorem secret_piping:
  "(command \<noteq> [] \<longrightarrow>
      (\<exists>proc_input. inputs (snd (run_command (Exited returncode stderr) command pw)) = [(command, proc_input)] \<and>
         (\<forall>secret. proc_input = Some secret \<longleftrightarrow> hd command = ''sudo'' \<and> pw = Some secret))) \<and>
   inputs (snd (run_command SpawnError command pw)) = [] \<and>
   (\<forall>r tr'. run_with_gauge jobs text commands pw tr = Some (r, tr') \<longrightarrow>
      (\<exists>cs. inputs tr' = inputs tr @ map (\<lambda>c. (c, if hd c = ''sudo'' then pw else None)) cs \<and>
            set cs \<subseteq> set commands - {[]}))"
proof (intro conjI impI allI)
  assume "command \<noteq> []"
  then show "\<exists>proc_input. inputs (snd (run_command (Exited returncode stderr) command pw)) = [(command, proc_input)] \<and>
         (\<forall>secret. proc_input = Some secret \<longleftrightarrow> hd command = ''sudo'' \<and> pw = Some secret)"
    by (simp add: run_command_inputs)
next
  show "inputs (snd (run_command SpawnError command pw)) = []"
    by (simp add: run_command_inputs)
next
  fix r tr'
  assume "run_with_gauge jobs text commands pw tr = Some (r, tr')"
  then obtain tr1 where run: "run_commands jobs 0 commands pw 0
      (tr @ [Dialog [''whiptail'', ''--title'', TITLE, ''--gauge'', text, HEIGHT, WIDTH, ''0'']]) = Some (r, tr1)"
    and tr': "tr' = tr1 \<or> tr' = tr1 @ [GaugeClose]"
    by (auto simp: run_with_gauge_def split: option.splits if_splits)
  from run_commands_inputs [OF run] tr'
  show "\<exists>cs. inputs tr' = inputs tr @ map (\<lambda>c. (c, if hd c = ''sudo'' then pw else None)) cs \<and>
            set cs \<subseteq> set commands - {[]}"
    by (auto simp: inputs_append)
qed

theorem secret_piping_witness:
  "inputs (snd (run_command (Exited 0 []) [''sudo'', ''-S'', ''systemctl'', ''daemon-reload''] (Some ''hunter2'')))
     = [([''sudo'', ''-S'', ''systemctl'', ''daemon-reload''], Some ''hunter2'')] \<and>
   inputs (snd (run_command (Exited 0 []) [''git'', ''clone''] (Some ''hunter2''))) = [([''git'', ''clone''], None)] \<and>
   inputs (snd (run_command (Exited 0 []) [''sudo'', ''-S'', ''systemctl'', ''daemon-reload''] None))
     = [([''sudo'', ''-S'', ''systemctl'', ''daemon-reload''], None)] \<and>
   (\<exists>tr' cs. run_with_gauge (executor example_env) ''Installing Services...'' example_commands (Some ''hunter2'') []
               = Some (True, tr') \<and>
             inputs tr' = map (\<lambda>c. (c, if hd c = ''sudo'' then Some ''hunter2'' else None)) cs \<and>
             set cs \<subseteq> set example_commands - {[]})"
proof (intro conjI)
  from secret_piping [of "[''sudo'', ''-S'', ''systemctl'', ''daemon-reload'']" 0 "[]" "Some ''hunter2''"
      "executor example_env" "[]" "[]" "[]"]
  show "inputs (snd (run_command (Exited 0 []) [''sudo'', ''-S'', ''systemctl'', ''daemon-reload''] (Some ''hunter2'')))
     = [([''sudo'', ''-S'', ''systemctl'', ''daemon-reload''], Some ''hunter2'')]"
    using written_input [of "inputs (snd (run_command (Exited 0 []) [''sudo'', ''-S'', ''systemctl'', ''daemon-reload''] (Some ''hunter2'')))"
        "[''sudo'', ''-S'', ''systemctl'', ''daemon-reload'']" "hd [''sudo'', ''-S'', ''systemctl'', ''daemon-reload''] = ''sudo''"
        "Some ''hunter2''"]
    by simp
  from secret_piping [of "[''git'', ''clone'']" 0 "[]" "Some ''hunter2''" "executor example_env" "[]" "[]" "[]"]
  show "inputs (snd (run_command (Exited 0 []) [''git'', ''clone''] (Some ''hunter2''))) = [([''git'', ''clone''], None)]"
    using written_input [of "inputs (snd (run_command (Exited 0 []) [''git'', ''clone''] (Some ''hunter2'')))"
        "[''git'', ''clone'']" "hd [''git'', ''clone''] = ''sudo''" "Some ''hunter2''"]
    by simp
  from secret_piping [of "[''sudo'', ''-S'', ''systemctl'', ''daemon-reload'']" 0 "[]" None
      "executor example_env" "[]" "[]" "[]"]
  show "inputs (snd (run_command (Exited 0 []) [''sudo'', ''-S'', ''systemctl'', ''daemon-reload''] None))
     = [([''sudo'', ''-S'', ''systemctl'', ''daemon-reload''], None)]"
    using written_input [of "inputs (snd (run_command (Exited 0 []) [''sudo'', ''-S'', ''systemctl'', ''daemon-reload''] None))"
        "[''sudo'', ''-S'', ''systemctl'', ''daemon-reload'']" "hd [''sudo'', ''-S'', ''systemctl'', ''daemon-reload''] = ''sudo''"
        None]
    by simp
  have "\<forall>i<length example_commands.
             succeeds (executor example_env i) (example_commands ! i) \<and> (\<exists>k. done_at (executor example_env i) k)"
    by (auto simp: less_Suc_eq example_env_def example_commands_def succeeds_def)
  from run_with_gauge_all [OF this, of "''Installing Services...''" "Some ''hunter2''" "[]"]
  obtain tr' where run: "run_with_gauge (executor example_env) ''Installing Services...'' example_commands (Some ''hunter2'') []
               = Some (True, tr')" by blast
  from secret_piping [of "[]" 0 "[]" "Some ''hunter2''" "executor example_env" "''Installing Services...''"
      example_commands "[]"] run
  show "\<exists>tr' cs. run_with_gauge (executor example_env) ''Installing Services...'' example_commands (Some ''hunter2'') []
               = Some (True, tr') \<and>
             inputs tr' = map (\<lambda>c. (c, if hd c = ''sudo'' then Some ''hunter2'' else None)) cs \<and>
             set cs \<subseteq> set example_commands - {[]}"
    by auto
qed

subsection \<open>Scoring one microphone\<close>

lemma record_proc_cases:
  "record_proc arecord device =
     (case arecord (arecord_command device) of
        SpawnError \<Rightarrow> 0
      | Exited returncode audio \<Rightarrow>
          if returncode \<noteq> 0 then 0
          else (case array_h audio of
                  Inl e \<Rightarrow> 0
                | Inr samples \<Rightarrow>
                    if samples = [] then 0
                    else sqrt (real_of_int (\<Sum>x\<leftarrow>samples. sint x * sint x) / real (length samples))))"
  by (simp add: record_proc_def record_try_def split: proc.splits sum.splits)

lemma squares_nonneg: "0 \<le> (\<Sum>x\<leftarrow>samples. sint x * sint x)"
  by (rule sum_list_nonneg) auto

lemma mean_square_nonneg:
  "0 \<le> real_of_int (\<Sum>x\<leftarrow>samples. sint x * sint x) / real (length samples)"
  using squares_nonneg [of samples] by simp

text \<open>
  C4. \<open>_record_proc\<close> returns a score for every device and every behaviour of the capture:
  0 when the capture cannot be spawned, when it exits with a code other than 0, when it
  yields no sample, and whenever the body of the \<open>try\<close> raises. A score other than 0 comes
  from a capture that returned 0 with a non-empty list of samples, and is the square root
  of the mean of their squares (over the reals). The score is never negative.
\<close>

theorem record_proc_total:
  "(arecord (arecord_command device) = SpawnError \<longrightarrow> record_proc arecord device = 0) \<and>
   (returncode \<noteq> 0 \<and> arecord (arecord_command device) = Exited returncode audio \<longrightarrow>
      record_proc arecord device = 0) \<and>
   (arecord (arecord_command device) = Exited 0 [] \<longrightarrow> record_proc arecord device = 0) \<and>
   (\<forall>err. record_try arecord device = Inl err \<longrightarrow> record_proc arecord device = 0) \<and>
   (record_proc arecord device \<noteq> 0 \<longrightarrow>
      (\<exists>bytes samples. arecord (arecord_command device) = Exited 0 bytes \<and>
         array_h bytes = Inr samples \<and> samples \<noteq> [] \<and>
         record_proc arecord device
           = sqrt (real_of_int (\<Sum>x\<leftarrow>samples. sint x * sint x) / real (length samples)))) \<and>
   0 \<le> record_proc arecord device"
proof (intro conjI impI allI)
  show "0 \<le> record_proc arecord device"
    by (simp add: record_proc_cases mean_square_nonneg split: proc.splits sum.splits)
next
  fix err assume "record_try arecord device = Inl err"
  then show "record_proc arecord device = 0" by (simp add: record_proc_def)
next
  assume "record_proc arecord device \<noteq> 0"
  then show "\<exists>bytes samples. arecord (arecord_command device) = Exited 0 bytes \<and>
         array_h bytes = Inr samples \<and> samples \<noteq> [] \<and>
         record_proc arecord device
           = sqrt (real_of_int (\<Sum>x\<leftarrow>samples. sint x * sint x) / real (length samples))"
    by (auto simp: record_proc_cases split: proc.splits sum.splits if_splits)
qed (simp_all add: record_proc_cases)

theorem record_proc_total_witness:
  "record_proc (\<lambda>argv. SpawnError) ''plughw:CARD=a'' = 0 \<and>
   record_proc (\<lambda>argv. Exited 1 [2, 0]) ''plughw:CARD=a'' = 0 \<and>
   record_proc (\<lambda>argv. Exited 0 []) ''plughw:CARD=a'' = 0 \<and>
   record_proc (\<lambda>argv. Exited 0 [2, 0, 254]) ''plughw:CARD=a'' = 0 \<and>
   record_proc (\<lambda>argv. Exited 0 [2, 0, 254, 255]) ''plughw:CARD=a'' = 2"
proof (intro conjI)
  from record_proc_total [of "\<lambda>argv. SpawnError" "''plughw:CARD=a''"]
  show "record_proc (\<lambda>argv. SpawnError) ''plughw:CARD=a'' = 0" by simp
  from record_proc_total [of "\<lambda>argv. Exited 1 [2, 0]" "''plughw:CARD=a''" 1 "[2, 0]"]
  show "record_proc (\<lambda>argv. Exited 1 [2, 0]) ''plughw:CARD=a'' = 0" by simp
  from record_proc_total [of "\<lambda>argv. Exited 0 []" "''plughw:CARD=a''"]
  show "record_proc (\<lambda>argv. Exited 0 []) ''plughw:CARD=a'' = 0" by simp
  have "record_try (\<lambda>argv. Exited 0 [2, 0, 254]) ''plughw:CARD=a'' = Inl ValueError"
    by (simp add: record_try_def)
  with record_proc_total [of "\<lambda>argv. Exited 0 [2, 0, 254]" "''plughw:CARD=a''"]
  show "record_proc (\<lambda>argv. Exited 0 [2, 0, 254]) ''plughw:CARD=a'' = 0" by blast
  have nz: "record_proc (\<lambda>argv. Exited 0 [2, 0, 254, 255]) ''plughw:CARD=a'' \<noteq> 0"
    by (simp add: record_proc_def record_try_def)
  from record_proc_total [of "\<lambda>argv. Exited 0 [2, 0, 254, 255]" "''plughw:CARD=a''"] nz
  obtain bytes samples where "(Exited 0 [2, 0, 254, 255] :: 8 word list proc) = Exited 0 bytes"
    "array_h bytes = Inr samples"
    "record_proc (\<lambda>argv. Exited 0 [2, 0, 254, 255]) ''plughw:CARD=a''
       = sqrt (real_of_int (\<Sum>x\<leftarrow>samples. sint x * sint x) / real (length samples))"
    by blast
  then show "record_proc (\<lambda>argv. Exited 0 [2, 0, 254, 255]) ''plughw:CARD=a'' = 2"
    by auto
qed

end
